theory Spec2Isabelle
  imports Complex_Main "HOL-Library.AList"
begin

section \<open>Data model of server.js\<close>

text \<open>
  A connection (the \<open>ws\<close> object of the source) is identified by a number; object identity
  is all the server uses of it, besides \<open>readyState\<close>, which the handlers receive as the
  predicate \<open>opn\<close> (is the connection OPEN at the time of the reaction).
\<close>

type_synonym conn = nat

text \<open>
  The room object of the source:
  \<^verbatim>\<open>{ players: [ws|null, ws|null], symbols: Map<ws,"X"|"O">, board: string[9],
     turn: "X"|"O", gameOver: boolean }\<close>
  \<open>null\<close> is \<open>None\<close>; the \<open>symbols\<close> Map is only read by key, so it is a partial function.
\<close>

record room =
  players :: "conn option list"
  symbols :: "conn \<rightharpoonup> string"
  board :: "string list"
  turn :: string
  gameOver :: bool

text \<open>
  \<open>rooms\<close> is a JavaScript Map, which iterates in insertion order (\<open>cleanupWs\<close> stops at the
  first room that holds the connection), so it is an association list: \<open>rooms.get\<close> is
  \<open>map_of\<close>, \<open>rooms.set\<close> is \<open>AList.update\<close> (in place for a present key, appended for
  a new one), \<open>rooms.delete\<close> is \<open>AList.delete\<close>. Mutating a room object that is held
  in the Map is an update at its key.
\<close>

type_synonym rooms = "(string \<times> room) list"

text \<open>The texts of the info and error messages are Russian sentences; each is named here.\<close>

datatype info =
    RoomCreated     \<comment> \<open>line 92\<close>
  | SecondJoined    \<comment> \<open>line 128\<close>
  | PlayerLeft      \<comment> \<open>line 61\<close>
  | Restarted       \<comment> \<open>line 207\<close>

datatype err =
    RoomNotFound    \<comment> \<open>line 102\<close>
  | RoomFull        \<comment> \<open>line 116\<close>
  | NotInRoom       \<comment> \<open>line 143\<close>
  | WaitingSecond   \<comment> \<open>line 151\<close>
  | NotYourTurn     \<comment> \<open>line 157\<close>

text \<open>
  The result of \<open>roomState\<close>: board, turn, gameOver, playersCount.
  \<open>Joined\<close> carries \<open>room.symbols.get(ws)\<close>, which is \<open>undefined\<close> (\<open>None\<close>) for a missing key.
\<close>

type_synonym room_view = "string list \<times> string \<times> bool \<times> nat"

datatype outmsg =
    Hello
  | Joined string "string option"
  | StateMsg "room_view option"
  | Info info
  | Error err
  | GameOver string

type_synonym outs = "(conn \<times> outmsg) list"

text \<open>
  \<open>msg.index\<close> is any JSON value. Numbers are IEEE doubles: a finite one is a rational
  (\<open>-0\<close> and \<open>0\<close> behave alike in every use below), and \<open>NaN\<close> and the infinities are kept
  apart; everything else has a \<open>typeof\<close> other than \<open>"number"\<close>.
\<close>

datatype jsindex = Num rat | NaN | PosInf | NegInf | NotNumber

text \<open>
  \<open>msg.roomCode\<close>: a string, a falsy value (absent, \<open>null\<close>, \<open>0\<close>, \<open>false\<close>) for which
  \<open>msg.roomCode || ""\<close> is the empty string, or a truthy value that is not a string, on
  which \<open>.toUpperCase()\<close> is not a function.
\<close>

datatype jsfield = JString string | JFalsy | JTruthy

datatype inmsg =
    Create
  | Join jsfield
  | Move jsfield jsindex
  | Restart jsfield
  | OtherType     \<comment> \<open>a value whose \<open>type\<close> is none of the four\<close>
  | NullMsg       \<comment> \<open>the JSON text \<open>null\<close>: \<open>msg.type\<close> throws\<close>
  | Unparsable    \<comment> \<open>\<open>JSON.parse\<close> throws, the handler returns\<close>

datatype failure = TypeError

section \<open>Helpers\<close>

definition chars :: string where
  "chars = ''ABCDEFGHJKLMNPQRSTUVWXYZ23456789''"

text \<open>
  \<open>chars[Math.floor(Math.random() * chars.length)]\<close>, for the value \<open>r\<close> of
  \<open>Math.random()\<close>; an index out of range reads \<open>undefined\<close>, which \<open>+=\<close> appends as text.
\<close>

definition pick :: "rat \<Rightarrow> string" where
  "pick r =
     (let k = \<lfloor>r * of_nat (length chars)\<rfloor>
      in if 0 \<le> k \<and> k < int (length chars) then [chars ! nat k] else ''undefined'')"

text \<open>\<open>makeRoomCode\<close>: five draws, \<open>rnd 0 .. rnd 4\<close>, appended in turn.\<close>

definition makeRoomCode :: "(nat \<Rightarrow> rat) \<Rightarrow> string" where
  "makeRoomCode rnd = foldl (\<lambda>code i. code @ pick (rnd i)) [] [0..<5]"

definition safeSend :: "(conn \<Rightarrow> bool) \<Rightarrow> conn option \<Rightarrow> outmsg \<Rightarrow> outs" where
  "safeSend opn p obj =
     (case p of None \<Rightarrow> [] | Some ws \<Rightarrow> if opn ws then [(ws, obj)] else [])"

definition broadcastRoom :: "(conn \<Rightarrow> bool) \<Rightarrow> rooms \<Rightarrow> string \<Rightarrow> outmsg \<Rightarrow> outs" where
  "broadcastRoom opn rs roomCode obj =
     (case map_of rs roomCode of
        None \<Rightarrow> []
      | Some room \<Rightarrow> concat (map (\<lambda>p. safeSend opn p obj) (players room)))"

definition playersCount :: "room \<Rightarrow> nat" where
  "playersCount room = length (filter (\<lambda>p. p \<noteq> None) (players room))"

definition roomState :: "rooms \<Rightarrow> string \<Rightarrow> room_view option" where
  "roomState rs roomCode =
     (case map_of rs roomCode of
        None \<Rightarrow> None
      | Some room \<Rightarrow> Some (board room, turn room, gameOver room, playersCount room))"

text \<open>\<open>findIndex\<close> and \<open>indexOf\<close> of an array; the result \<open>-1\<close> is \<open>None\<close>.\<close>

primrec findIndex :: "('a \<Rightarrow> bool) \<Rightarrow> 'a list \<Rightarrow> nat option" where
  "findIndex P [] = None"
| "findIndex P (x # xs) = (if P x then Some 0 else map_option Suc (findIndex P xs))"

definition indexOf :: "'a list \<Rightarrow> 'a \<Rightarrow> nat option" where
  "indexOf xs x = findIndex (\<lambda>y. y = x) xs"

text \<open>
  \<open>(msg.roomCode || "").toUpperCase().trim()\<close> on ASCII text: the 26 small letters are
  mapped to capitals, and blanks, tabs and line breaks are removed at both ends. Room codes
  are made of ASCII capitals and digits; the statements below use the normalised code only
  as the key that is looked up.
\<close>

definition toUpperChar :: "char \<Rightarrow> char" where
  "toUpperChar c =
     (case map_of (zip ''abcdefghijklmnopqrstuvwxyz'' ''ABCDEFGHIJKLMNOPQRSTUVWXYZ'') c of
        None \<Rightarrow> c | Some u \<Rightarrow> u)"

definition isSpace :: "char \<Rightarrow> bool" where
  "isSpace c \<longleftrightarrow> c \<in> set [CHR '' '', CHR 0x09, CHR 0x0A, CHR 0x0B, CHR 0x0C, CHR 0x0D]"

definition trim :: "string \<Rightarrow> string" where
  "trim s = rev (dropWhile isSpace (rev (dropWhile isSpace s)))"

definition normCode :: "string \<Rightarrow> string" where
  "normCode s = trim (map toUpperChar s)"

text \<open>The string that the three handlers normalise, when there is one.\<close>

fun codeArg :: "jsfield \<Rightarrow> string option" where
  "codeArg (JString s) = Some s"
| "codeArg JFalsy = Some []"
| "codeArg JTruthy = None"

section \<open>cleanupWs\<close>

fun cleanupScan :: "(conn \<Rightarrow> bool) \<Rightarrow> conn \<Rightarrow> rooms \<Rightarrow> rooms \<Rightarrow> rooms \<times> outs" where
  "cleanupScan opn ws [] rs = (rs, [])"
| "cleanupScan opn ws ((code, room) # rest) rs =
     (case indexOf (players room) (Some ws) of
        None \<Rightarrow> cleanupScan opn ws rest rs
      | Some idx \<Rightarrow>
          (let room' = room\<lparr>players := (players room)[idx := None],
                            symbols := (symbols room)(ws := None)\<rparr>;
               rs1 = AList.update code room' rs;
               out = broadcastRoom opn rs1 code (Info PlayerLeft)
                     @ broadcastRoom opn rs1 code (StateMsg (roomState rs1 code));
               rs2 = (if list_all (\<lambda>p. p = None) (players room')
                      then AList.delete code rs1 else rs1)
           in (rs2, out)))"

text \<open>The loop runs over the entries of \<open>rooms\<close> itself.\<close>

definition cleanupWs :: "(conn \<Rightarrow> bool) \<Rightarrow> conn \<Rightarrow> rooms \<Rightarrow> rooms \<times> outs" where
  "cleanupWs opn ws rs = cleanupScan opn ws rs rs"

section \<open>create\<close>

text \<open>
  \<open>let code = makeRoomCode(); while (rooms.has(code)) code = makeRoomCode();\<close>
  The values of \<open>Math.random()\<close> are the stream \<open>rnd\<close>; attempt \<open>k\<close> consumes
  \<open>rnd (5 * k) .. rnd (5 * k + 4)\<close>. The loop has no bound: not returning is \<open>None\<close>.
\<close>

definition candidate :: "(nat \<Rightarrow> rat) \<Rightarrow> nat \<Rightarrow> string" where
  "candidate rnd k = makeRoomCode (\<lambda>i. rnd (5 * k + i))"

partial_function (option) freshCode :: "(nat \<Rightarrow> rat) \<Rightarrow> rooms \<Rightarrow> nat \<Rightarrow> string option" where
  "freshCode rnd rs k =
     (if map_of rs (candidate rnd k) \<noteq> None then freshCode rnd rs (Suc k)
      else Some (candidate rnd k))"

definition newRoom :: "conn \<Rightarrow> room" where
  "newRoom ws =
     \<lparr>players = [Some ws, None], symbols = [ws \<mapsto> ''X''],
      board = replicate 9 [], turn = ''X'', gameOver = False\<rparr>"

definition create :: "(conn \<Rightarrow> bool) \<Rightarrow> conn \<Rightarrow> string \<Rightarrow> rooms \<Rightarrow> rooms \<times> outs" where
  "create opn ws code rs =
     (let rs' = AList.update code (newRoom ws) rs
      in (rs', safeSend opn (Some ws) (Joined code (Some ''X''))
               @ safeSend opn (Some ws) (StateMsg (roomState rs' code))
               @ safeSend opn (Some ws) (Info RoomCreated)))"

section \<open>join\<close>

definition join :: "(conn \<Rightarrow> bool) \<Rightarrow> conn \<Rightarrow> string \<Rightarrow> rooms \<Rightarrow> rooms \<times> outs" where
  "join opn ws raw rs =
     (let code = normCode raw in
      case map_of rs code of
        None \<Rightarrow> (rs, safeSend opn (Some ws) (Error RoomNotFound))
      | Some room \<Rightarrow>
          if Some ws \<in> set (players room)
          then (rs, safeSend opn (Some ws) (Joined code (symbols room ws))
                    @ safeSend opn (Some ws) (StateMsg (roomState rs code)))
          else (case findIndex (\<lambda>p. p = None) (players room) of
                  None \<Rightarrow> (rs, safeSend opn (Some ws) (Error RoomFull))
                | Some freeIndex \<Rightarrow>
                    (let symbol = (if freeIndex = 0 then ''X'' else ''O'');
                         room' = room\<lparr>players := (players room)[freeIndex := Some ws],
                                      symbols := (symbols room)(ws \<mapsto> symbol)\<rparr>;
                         rs' = AList.update code room' rs
                     in (rs', safeSend opn (Some ws) (Joined code (Some symbol))
                              @ safeSend opn (Some ws) (StateMsg (roomState rs' code))
                              @ broadcastRoom opn rs' code (Info SecondJoined)
                              @ broadcastRoom opn rs' code (StateMsg (roomState rs' code))))))"

section \<open>move\<close>

text \<open>\<open>typeof i !== "number" || i < 0 || i > 8\<close>; every comparison with \<open>NaN\<close> is false.\<close>

fun badIndex :: "jsindex \<Rightarrow> bool" where
  "badIndex (Num q) = (q < 0 \<or> q > 8)"
| "badIndex NaN = False"
| "badIndex PosInf = True"
| "badIndex NegInf = True"
| "badIndex NotNumber = True"

text \<open>
  \<open>arr[i]\<close> for a number \<open>i\<close>: the element when \<open>i\<close> is an integer from \<open>0\<close> below the
  length, \<open>undefined\<close> (\<open>None\<close>) otherwise, since no other property key of the array is the
  text of a number.
\<close>

fun arrayIndex :: "'a list \<Rightarrow> jsindex \<Rightarrow> nat option" where
  "arrayIndex arr (Num q) =
     (if q = of_int \<lfloor>q\<rfloor> \<and> 0 \<le> q \<and> nat \<lfloor>q\<rfloor> < length arr then Some (nat \<lfloor>q\<rfloor>) else None)"
| "arrayIndex arr _ = None"

definition cell :: "'a list \<Rightarrow> nat \<Rightarrow> 'a option" where
  "cell arr n = (if n < length arr then Some (arr ! n) else None)"

definition WINS :: "(nat \<times> nat \<times> nat) list" where
  "WINS = [(0,1,2), (3,4,5), (6,7,8),
           (0,3,6), (1,4,7), (2,5,8),
           (0,4,8), (2,4,6)]"

text \<open>
  \<open>room.board[a] && room.board[a] === room.board[b] && room.board[a] === room.board[c]\<close>;
  a string is truthy when it is not empty, \<open>undefined\<close> is not.
\<close>

definition lineWins :: "string list \<Rightarrow> nat \<times> nat \<times> nat \<Rightarrow> bool" where
  "lineWins bd l =
     (case l of (a, b, c) \<Rightarrow>
        (case cell bd a of None \<Rightarrow> False | Some v \<Rightarrow> v \<noteq> [])
        \<and> cell bd a = cell bd b \<and> cell bd a = cell bd c)"

text \<open>The \<open>for ... of WINS\<close> loop with its \<open>break\<close>; \<open>winner\<close> starts as \<open>null\<close>.\<close>

fun scanWins :: "string list \<Rightarrow> (nat \<times> nat \<times> nat) list \<Rightarrow> string option" where
  "scanWins bd [] = None"
| "scanWins bd ((a, b, c) # ls) =
     (if lineWins bd (a, b, c) then cell bd a else scanWins bd ls)"

text \<open>Lines 164 to 189: the write, the scan, and the end of the game or the turn flip.\<close>

definition winnerOf :: "string list \<Rightarrow> string option" where
  "winnerOf bd = scanWins bd WINS"

definition isDraw :: "string list \<Rightarrow> bool" where
  "isDraw bd \<longleftrightarrow> winnerOf bd = None \<and> list_all (\<lambda>v. v \<noteq> []) bd"

definition place :: "room \<Rightarrow> nat \<Rightarrow> string \<Rightarrow> room" where
  "place room n you =
     (let room1 = room\<lparr>board := (board room)[n := you]\<rparr>
      in if winnerOf (board room1) \<noteq> None \<or> isDraw (board room1)
         then room1\<lparr>gameOver := True\<rparr>
         else room1\<lparr>turn := (if turn room1 = ''X'' then ''O'' else ''X'')\<rparr>)"

definition move :: "(conn \<Rightarrow> bool) \<Rightarrow> conn \<Rightarrow> string \<Rightarrow> jsindex \<Rightarrow> rooms \<Rightarrow> rooms \<times> outs" where
  "move opn ws raw i rs =
     (let code = normCode raw in
      case map_of rs code of
        None \<Rightarrow> (rs, [])
      | Some room \<Rightarrow>
          (case symbols room ws of
             None \<Rightarrow> (rs, safeSend opn (Some ws) (Error NotInRoom))
           | Some you \<Rightarrow>
               if you = [] then (rs, safeSend opn (Some ws) (Error NotInRoom))
               else if gameOver room then (rs, [])
               else if badIndex i then (rs, [])
               else if playersCount room < 2
                 then (rs, safeSend opn (Some ws) (Error WaitingSecond))
               else if turn room \<noteq> you
                 then (rs, safeSend opn (Some ws) (Error NotYourTurn))
               else (case arrayIndex (board room) i of
                       None \<Rightarrow> (rs, [])
                     | Some n \<Rightarrow>
                         if board room ! n \<noteq> [] then (rs, [])
                         else
                           (let room' = place room n you;
                                rs' = AList.update code room' rs;
                                over = (if gameOver room'
                                        then broadcastRoom opn rs' code
                                               (GameOver (case winnerOf (board room') of
                                                            None \<Rightarrow> ''D'' | Some w \<Rightarrow> w))
                                        else [])
                            in (rs', over @ broadcastRoom opn rs' code
                                              (StateMsg (roomState rs' code)))))))"

section \<open>restart\<close>

definition restart :: "(conn \<Rightarrow> bool) \<Rightarrow> conn \<Rightarrow> string \<Rightarrow> rooms \<Rightarrow> rooms \<times> outs" where
  "restart opn ws raw rs =
     (let code = normCode raw in
      case map_of rs code of
        None \<Rightarrow> (rs, [])
      | Some room \<Rightarrow>
          (case symbols room ws of
             None \<Rightarrow> (rs, [])
           | Some you \<Rightarrow>
               if you = [] then (rs, [])
               else
                 (let room' = room\<lparr>board := replicate 9 [], turn := ''X'', gameOver := False\<rparr>;
                      rs' = AList.update code room' rs
                  in (rs', broadcastRoom opn rs' code (Info Restarted)
                           @ broadcastRoom opn rs' code (StateMsg (roomState rs' code))))))"

section \<open>The message handler and the reachable registries\<close>

text \<open>
  One reaction to a parsed message. \<open>None\<close>: the create loop never finds a free code;
  \<open>Some (Inl TypeError)\<close>: the handler throws before it has changed anything;
  \<open>Some (Inr (rooms, sent))\<close>: it returns.
\<close>

definition onMessage ::
  "(conn \<Rightarrow> bool) \<Rightarrow> (nat \<Rightarrow> rat) \<Rightarrow> conn \<Rightarrow> inmsg \<Rightarrow> rooms \<Rightarrow> (failure + rooms \<times> outs) option" where
  "onMessage opn rnd ws msg rs =
     (case msg of
        NullMsg \<Rightarrow> Some (Inl TypeError)
      | Create \<Rightarrow> map_option (\<lambda>code. Inr (create opn ws code rs)) (freshCode rnd rs 0)
      | Join f \<Rightarrow>
          (case codeArg f of None \<Rightarrow> Some (Inl TypeError)
           | Some raw \<Rightarrow> Some (Inr (join opn ws raw rs)))
      | Move f i \<Rightarrow>
          (case codeArg f of None \<Rightarrow> Some (Inl TypeError)
           | Some raw \<Rightarrow> Some (Inr (move opn ws raw i rs)))
      | Restart f \<Rightarrow>
          (case codeArg f of None \<Rightarrow> Some (Inl TypeError)
           | Some raw \<Rightarrow> Some (Inr (restart opn ws raw rs)))
      | OtherType \<Rightarrow> Some (Inr (rs, []))
      | Unparsable \<Rightarrow> Some (Inr (rs, [])))"

text \<open>The greeting sent when a connection is accepted (line 216).\<close>

definition onConnection :: "(conn \<Rightarrow> bool) \<Rightarrow> conn \<Rightarrow> outs" where
  "onConnection opn ws = safeSend opn (Some ws) Hello"

text \<open>
  The registry starts empty and changes only in reactions: to a message of any connection,
  or to the close or error event of one.
\<close>

inductive reachable :: "rooms \<Rightarrow> bool" where
  start: "reachable []"
| message: "reachable rs \<Longrightarrow> onMessage opn rnd ws msg rs = Some (Inr (rs', out)) \<Longrightarrow> reachable rs'"
| closed: "reachable rs \<Longrightarrow> reachable (fst (cleanupWs opn ws rs))"

section \<open>Predicates used in the statements\<close>

text \<open>
  The symbol of each occupant is the one of its slot (position 0 plays X, position 1
  plays O), the two slots never hold the same value (so never both \<open>null\<close>, and never one
  connection twice).
\<close>

definition slotSymbols :: "conn option list \<Rightarrow> conn \<rightharpoonup> string" where
  "slotSymbols ps c =
     (if cell ps 0 = Some (Some c) then Some ''X''
      else if cell ps 1 = Some (Some c) then Some ''O'' else None)"

definition slotsOk :: "room \<Rightarrow> bool" where
  "slotsOk room \<longleftrightarrow>
     length (players room) = 2 \<and> players room ! 0 \<noteq> players room ! 1
     \<and> symbols room = slotSymbols (players room)"

definition boardOk :: "room \<Rightarrow> bool" where
  "boardOk room \<longleftrightarrow>
     length (board room) = 9 \<and> set (board room) \<subseteq> {[], ''X'', ''O''}
     \<and> turn room \<in> {''X'', ''O''}"

text \<open>The number of cells holding X minus the number of cells holding O.\<close>

definition lead :: "string list \<Rightarrow> int" where
  "lead bd = int (count_list bd ''X'') - int (count_list bd ''O'')"

definition parityOk :: "room \<Rightarrow> bool" where
  "parityOk room \<longleftrightarrow>
     (lead (board room) = 0 \<or> lead (board room) = 1)
     \<and> (\<not> gameOver room \<longrightarrow>
          (lead (board room) = 0 \<longleftrightarrow> turn room = ''X'')
          \<and> (lead (board room) = 1 \<longleftrightarrow> turn room = ''O''))"

definition roomOk :: "room \<Rightarrow> bool" where
  "roomOk room \<longleftrightarrow> slotsOk room \<and> boardOk room \<and> parityOk room"

definition roomsOk :: "rooms \<Rightarrow> bool" where
  "roomsOk rs \<longleftrightarrow> distinct (map fst rs) \<and> list_all (\<lambda>(code, room). roomOk room) rs"

text \<open>A move is accepted when it changes the board of the room it names.\<close>

definition boardOf :: "rooms \<Rightarrow> string \<Rightarrow> string list option" where
  "boardOf rs code = map_option board (map_of rs code)"

definition accepted :: "(conn \<Rightarrow> bool) \<Rightarrow> conn \<Rightarrow> string \<Rightarrow> jsindex \<Rightarrow> rooms \<Rightarrow> bool" where
  "accepted opn ws raw i rs \<longleftrightarrow>
     boardOf (fst (move opn ws raw i rs)) (normCode raw) \<noteq> boardOf rs (normCode raw)"

section \<open>Example registries\<close>

text \<open>Room AAAAA as connection 1 has just created it.\<close>

definition exOne :: rooms where
  "exOne = [(''AAAAA'', newRoom 1)]"

text \<open>Room AAAAA with both slots taken, before the first move.\<close>

definition exTwo :: rooms where
  "exTwo = [(''AAAAA'', \<lparr>players = [Some 1, Some 2], symbols = [1 \<mapsto> ''X'', 2 \<mapsto> ''O''],
                        board = [[], [], [], [], [], [], [], [], []], turn = ''X'', gameOver = False\<rparr>)]"

text \<open>The same room after X has played 0 and 1, and O 3 and 4.\<close>

definition exMid :: rooms where
  "exMid = [(''AAAAA'', \<lparr>players = [Some 1, Some 2], symbols = [1 \<mapsto> ''X'', 2 \<mapsto> ''O''],
                        board = [''X'', ''X'', [], ''O'', ''O'', [], [], [], []], turn = ''X'', gameOver = False\<rparr>)]"

section \<open>What every reachable registry satisfies\<close>

lemma list2: "length xs = 2 \<Longrightarrow> \<exists>a b. xs = [a, b]"
  by (cases xs; cases "tl xs") auto

lemma slotsOkD:
  assumes "slotsOk room"
  obtains p0 p1 where "players room = [p0, p1]" "p0 \<noteq> p1"
    "symbols room = (\<lambda>c. if p0 = Some c then Some ''X'' else if p1 = Some c then Some ''O'' else None)"
proof -
  from assms have l: "length (players room) = 2" by (simp add: slotsOk_def)
  from list2[OF l] obtain a b where ab: "players room = [a, b]" by blast
  with assms have "a \<noteq> b" by (simp add: slotsOk_def)
  moreover from assms ab have "symbols room = (\<lambda>c. if a = Some c then Some ''X'' else if b = Some c then Some ''O'' else None)"
    by (simp add: slotsOk_def slotSymbols_def cell_def fun_eq_iff)
  ultimately show ?thesis using ab that by blast
qed

lemma slotsOkI:
  "players room = [p0, p1] \<Longrightarrow> p0 \<noteq> p1 \<Longrightarrow>
   symbols room = (\<lambda>c. if p0 = Some c then Some ''X'' else if p1 = Some c then Some ''O'' else None)
   \<Longrightarrow> slotsOk room"
  by (simp add: slotsOk_def slotSymbols_def cell_def fun_eq_iff)

lemma roomsOk_lookup: "roomsOk rs \<Longrightarrow> map_of rs c = Some r \<Longrightarrow> roomOk r"
  by (auto simp: roomsOk_def list_all_iff dest!: map_of_SomeD)

lemma set_update_subset: "set (AList.update c r rs) \<subseteq> insert (c, r) (set rs)"
  by (induction rs) auto

lemma roomsOk_update: "roomsOk rs \<Longrightarrow> roomOk r \<Longrightarrow> roomsOk (AList.update c r rs)"
  using set_update_subset[of c r rs]
  by (auto simp: roomsOk_def list_all_iff distinct_update)

lemma roomsOk_delete: "roomsOk rs \<Longrightarrow> roomsOk (AList.delete c rs)"
proof -
  assume a: "roomsOk rs"
  then have "distinct (map fst (AList.delete c rs))" by (simp add: roomsOk_def distinct_delete)
  moreover have "set (AList.delete c rs) \<subseteq> set rs" by (auto simp: AList.delete_eq)
  ultimately show ?thesis using a unfolding roomsOk_def list_all_iff by blast
qed

lemma roomOk_newRoom: "roomOk (newRoom ws)"
  by (simp add: roomOk_def newRoom_def slotsOk_def slotSymbols_def cell_def fun_eq_iff
      boardOk_def parityOk_def lead_def)

lemma slotsOk_join:
  assumes "slotsOk room" "Some ws \<notin> set (players room)"
    "findIndex (\<lambda>p. p = None) (players room) = Some k"
  shows "slotsOk (room\<lparr>players := (players room)[k := Some ws],
                      symbols := (symbols room)(ws \<mapsto> (if k = 0 then ''X'' else ''O''))\<rparr>)"
proof -
  from assms(1) obtain p0 p1 where p: "players room = [p0, p1]" "p0 \<noteq> p1"
    "symbols room = (\<lambda>c. if p0 = Some c then Some ''X'' else if p1 = Some c then Some ''O'' else None)"
    by (rule slotsOkD)
  show ?thesis
  proof (cases "p0 = None")
    case True
    with assms p have "k = 0" by simp
    with True p assms(2) show ?thesis
      by (intro slotsOkI[where ?p0.0 = "Some ws" and ?p1.0 = p1]) (auto simp: fun_eq_iff)
  next
    case False
    with assms p have k: "k = 1" "p1 = None" by (auto split: if_splits)
    with False p assms(2) show ?thesis
      by (intro slotsOkI[where ?p0.0 = p0 and ?p1.0 = "Some ws"]) (auto simp: fun_eq_iff)
  qed
qed

lemma indexOf_2:
  "indexOf [p0, p1] x = Some idx \<Longrightarrow> (idx = 0 \<and> p0 = x) \<or> (idx = 1 \<and> p1 = x \<and> p0 \<noteq> x)"
  by (auto simp: indexOf_def split: if_splits)

lemma slotsOk_leave:
  assumes "slotsOk room" "indexOf (players room) (Some ws) = Some idx"
    "\<not> list_all (\<lambda>p. p = None) ((players room)[idx := None])"
  shows "slotsOk (room\<lparr>players := (players room)[idx := None],
                      symbols := (symbols room)(ws := None)\<rparr>)"
proof -
  from assms(1) obtain p0 p1 where p: "players room = [p0, p1]" "p0 \<noteq> p1"
    "symbols room = (\<lambda>c. if p0 = Some c then Some ''X'' else if p1 = Some c then Some ''O'' else None)"
    by (rule slotsOkD)
  from assms(2) p(1) have "(idx = 0 \<and> p0 = Some ws) \<or> (idx = 1 \<and> p1 = Some ws \<and> p0 \<noteq> Some ws)"
    using indexOf_2 by metis
  then show ?thesis
  proof
    assume a: "idx = 0 \<and> p0 = Some ws"
    with p assms(3) show ?thesis
      by (intro slotsOkI[where ?p0.0 = None and ?p1.0 = p1]) (auto simp: fun_eq_iff)
  next
    assume a: "idx = 1 \<and> p1 = Some ws \<and> p0 \<noteq> Some ws"
    with p assms(3) show ?thesis
      by (intro slotsOkI[where ?p0.0 = p0 and ?p1.0 = None]) (auto simp: fun_eq_iff)
  qed
qed


lemma count_list_update:
  "n < length xs \<Longrightarrow> xs ! n \<noteq> y \<Longrightarrow>
   count_list (xs[n := v]) y = count_list xs y + (if v = y then 1 else 0)"
proof (induction xs arbitrary: n)
  case Nil
  then show ?case by simp
next
  case (Cons x xs)
  then show ?case by (cases n) auto
qed

lemma lead_X: "n < length bd \<Longrightarrow> bd ! n = [] \<Longrightarrow> lead (bd[n := ''X'']) = lead bd + 1"
  by (simp add: lead_def count_list_update)

lemma lead_O: "n < length bd \<Longrightarrow> bd ! n = [] \<Longrightarrow> lead (bd[n := ''O'']) = lead bd - 1"
  by (simp add: lead_def count_list_update)

lemma place_fields:
  "players (place room n you) = players room"
  "symbols (place room n you) = symbols room"
  "board (place room n you) = (board room)[n := you]"
  by (simp_all add: place_def Let_def)

lemma place_over:
  "gameOver (place room n you) \<longleftrightarrow>
     gameOver room \<or> winnerOf ((board room)[n := you]) \<noteq> None \<or> isDraw ((board room)[n := you])"
  by (simp add: place_def Let_def)

lemma place_turn:
  "turn (place room n you) =
     (if winnerOf ((board room)[n := you]) \<noteq> None \<or> isDraw ((board room)[n := you])
      then turn room else if turn room = ''X'' then ''O'' else ''X'')"
  by (simp add: place_def Let_def)

lemma place_roomOk:
  assumes ok: "roomOk room" and live: "\<not> gameOver room"
    and n: "n < length (board room)" and e: "board room ! n = []"
  shows "roomOk (place room n (turn room))"
proof -
  from ok have s: "slotsOk room" and b: "boardOk room" and p: "parityOk room"
    by (simp_all add: roomOk_def)
  have s': "slotsOk (place room n (turn room))"
    using s by (simp add: slotsOk_def place_fields)
  have "set ((board room)[n := turn room]) \<subseteq> insert (turn room) (set (board room))"
    by (rule set_update_subset_insert)
  with b have b': "boardOk (place room n (turn room))"
    by (auto simp: boardOk_def place_fields place_turn)
  from b have "turn room = ''X'' \<or> turn room = ''O''" by (simp add: boardOk_def)
  then have p': "parityOk (place room n (turn room))"
  proof
    assume t: "turn room = ''X''"
    with p live have "lead (board room) = 0" by (simp add: parityOk_def)
    with t n e show ?thesis
      by (simp add: parityOk_def place_fields place_turn place_over lead_X)
  next
    assume t: "turn room = ''O''"
    with p live have "lead (board room) = 1" by (simp add: parityOk_def)
    with t n e show ?thesis
      by (simp add: parityOk_def place_fields place_turn place_over lead_O)
  qed
  from s' b' p' show ?thesis by (simp add: roomOk_def)
qed

lemma arrayIndexD: "arrayIndex arr i = Some n \<Longrightarrow> n < length arr \<and> i = Num (of_nat n)"
proof (cases i)
  case (Num q)
  assume "arrayIndex arr i = Some n"
  with Num have a: "q = of_int \<lfloor>q\<rfloor>" "0 \<le> q" "nat \<lfloor>q\<rfloor> < length arr" "n = nat \<lfloor>q\<rfloor>"
    by (auto split: if_splits)
  from a(2) have "0 \<le> \<lfloor>q\<rfloor>" by simp
  then have "of_nat (nat \<lfloor>q\<rfloor>) = (of_int \<lfloor>q\<rfloor> :: rat)" by simp
  with a Num show ?thesis by simp
qed simp_all

lemma move_roomsOk: "roomsOk rs \<Longrightarrow> roomsOk (fst (move opn ws raw i rs))"
proof -
  assume ok: "roomsOk rs"
  show ?thesis
  proof (cases "fst (move opn ws raw i rs) = rs")
    case True
    with ok show ?thesis by simp
  next
    case False
    then obtain room n where r: "map_of rs (normCode raw) = Some room"
      and live: "\<not> gameOver room" and ai: "arrayIndex (board room) i = Some n"
      and e: "board room ! n = []"
      and res: "fst (move opn ws raw i rs) = AList.update (normCode raw) (place room n (turn room)) rs"
      by (auto simp: move_def Let_def split: option.splits if_splits)
    from roomsOk_lookup[OF ok r] live arrayIndexD[OF ai] e
    have "roomOk (place room n (turn room))" by (intro place_roomOk) simp_all
    with ok res show ?thesis by (simp add: roomsOk_update)
  qed
qed

lemma restart_roomsOk: "roomsOk rs \<Longrightarrow> roomsOk (fst (restart opn ws raw rs))"
proof -
  assume ok: "roomsOk rs"
  show ?thesis
  proof (cases "fst (restart opn ws raw rs) = rs")
    case True
    with ok show ?thesis by simp
  next
    case False
    then obtain room where r: "map_of rs (normCode raw) = Some room"
      and res: "fst (restart opn ws raw rs) =
        AList.update (normCode raw) (room\<lparr>board := replicate 9 [], turn := ''X'', gameOver := False\<rparr>) rs"
      by (auto simp: restart_def Let_def split: option.splits if_splits)
    from roomsOk_lookup[OF ok r]
    have "roomOk (room\<lparr>board := replicate 9 [], turn := ''X'', gameOver := False\<rparr>)"
      by (simp add: roomOk_def slotsOk_def boardOk_def parityOk_def lead_def)
    with ok res show ?thesis by (simp add: roomsOk_update)
  qed
qed

lemma join_roomsOk: "roomsOk rs \<Longrightarrow> roomsOk (fst (join opn ws raw rs))"
proof -
  assume ok: "roomsOk rs"
  show ?thesis
  proof (cases "fst (join opn ws raw rs) = rs")
    case True
    with ok show ?thesis by simp
  next
    case False
    then obtain room k where r: "map_of rs (normCode raw) = Some room"
      and nin: "Some ws \<notin> set (players room)"
      and k: "findIndex (\<lambda>p. p = None) (players room) = Some k"
      and res: "fst (join opn ws raw rs) =
        AList.update (normCode raw)
          (room\<lparr>players := (players room)[k := Some ws],
                symbols := (symbols room)(ws \<mapsto> (if k = 0 then ''X'' else ''O''))\<rparr>) rs"
      by (auto simp: join_def Let_def split: option.splits if_splits)
    from roomsOk_lookup[OF ok r] have ro: "roomOk room" .
    then have "slotsOk (room\<lparr>players := (players room)[k := Some ws],
                symbols := (symbols room)(ws \<mapsto> (if k = 0 then ''X'' else ''O''))\<rparr>)"
      using nin k by (intro slotsOk_join) (simp_all add: roomOk_def)
    with ro have "roomOk (room\<lparr>players := (players room)[k := Some ws],
                symbols := (symbols room)(ws \<mapsto> (if k = 0 then ''X'' else ''O''))\<rparr>)"
      by (simp add: roomOk_def boardOk_def parityOk_def)
    with ok res show ?thesis by (simp add: roomsOk_update)
  qed
qed

lemma create_roomsOk: "roomsOk rs \<Longrightarrow> roomsOk (fst (create opn ws code rs))"
  by (simp add: create_def Let_def roomsOk_update roomOk_newRoom)

lemma cleanupScan_roomsOk:
  "roomsOk rs \<Longrightarrow> set rest \<subseteq> set rs \<Longrightarrow> roomsOk (fst (cleanupScan opn ws rest rs))"
proof (induction rest)
  case Nil
  then show ?case by simp
next
  case (Cons cr rest)
  obtain code room where cr: "cr = (code, room)" by (cases cr)
  from Cons.prems cr have ro: "roomOk room" by (auto simp: roomsOk_def list_all_iff)
  show ?case
  proof (cases "indexOf (players room) (Some ws)")
    case None
    with Cons cr show ?thesis by simp
  next
    case (Some idx)
    let ?room' = "room\<lparr>players := (players room)[idx := None], symbols := (symbols room)(ws := None)\<rparr>"
    show ?thesis
    proof (cases "list_all (\<lambda>p. p = None) ((players room)[idx := None])")
      case True
      with Some cr Cons.prems(1) show ?thesis
        by (simp add: Let_def delete_update_same roomsOk_delete)
    next
      case False
      from ro have "slotsOk ?room'"
        using Some False by (intro slotsOk_leave) (simp_all add: roomOk_def)
      with ro have "roomOk ?room'" by (simp add: roomOk_def boardOk_def parityOk_def)
      with False Some cr Cons.prems(1) show ?thesis
        by (simp add: Let_def roomsOk_update)
    qed
  qed
qed

lemma cleanupWs_roomsOk: "roomsOk rs \<Longrightarrow> roomsOk (fst (cleanupWs opn ws rs))"
  by (simp add: cleanupWs_def cleanupScan_roomsOk)

lemma onMessage_roomsOk:
  assumes ok: "roomsOk rs" and r: "onMessage opn rnd ws msg rs = Some (Inr (rs', out))"
  shows "roomsOk rs'"
proof -
  have "rs' = rs \<or> (\<exists>code. rs' = fst (create opn ws code rs))
      \<or> (\<exists>raw. rs' = fst (join opn ws raw rs))
      \<or> (\<exists>raw i. rs' = fst (move opn ws raw i rs))
      \<or> (\<exists>raw. rs' = fst (restart opn ws raw rs))"
  proof (cases msg)
    case Create
    with r obtain code where "create opn ws code rs = (rs', out)"
      by (auto simp: onMessage_def)
    then have "rs' = fst (create opn ws code rs)" by simp
    then show ?thesis by blast
  next
    case (Join f)
    with r obtain raw where "join opn ws raw rs = (rs', out)"
      by (auto simp: onMessage_def split: option.splits)
    then have "rs' = fst (join opn ws raw rs)" by simp
    then show ?thesis by blast
  next
    case (Move f i)
    with r obtain raw where "move opn ws raw i rs = (rs', out)"
      by (auto simp: onMessage_def split: option.splits)
    then have "rs' = fst (move opn ws raw i rs)" by simp
    then show ?thesis by blast
  next
    case (Restart f)
    with r obtain raw where "restart opn ws raw rs = (rs', out)"
      by (auto simp: onMessage_def split: option.splits)
    then have "rs' = fst (restart opn ws raw rs)" by simp
    then show ?thesis by blast
  next
    case OtherType
    with r show ?thesis by (simp add: onMessage_def)
  next
    case Unparsable
    with r show ?thesis by (simp add: onMessage_def)
  next
    case NullMsg
    with r show ?thesis by (simp add: onMessage_def)
  qed
  with ok show ?thesis
    using create_roomsOk join_roomsOk move_roomsOk restart_roomsOk by blast
qed

lemma reachable_roomsOk: "reachable rs \<Longrightarrow> roomsOk rs"
proof (induction rule: reachable.induct)
  case start
  show ?case by (simp add: roomsOk_def)
next
  case (message rs opn rnd ws msg rs' out)
  then show ?case using onMessage_roomsOk by blast
next
  case (closed rs opn ws)
  then show ?case by (simp add: cleanupWs_roomsOk)
qed

section \<open>Room codes\<close>

lemma chars_length: "length chars = 32"
  by (simp add: chars_def)

lemma upt5: "[0..<5] = [0, Suc 0, 2, 3, 4]"
  by (simp add: upt_rec)

lemma pick_in:
  assumes "0 \<le> r" "r < 1"
  shows "\<exists>c. pick r = [c] \<and> c \<in> set chars"
proof -
  have a: "0 \<le> \<lfloor>r * 32\<rfloor>" using assms by simp
  have "r * 32 < 32" using assms by simp
  then have b: "\<lfloor>r * 32\<rfloor> < 32" by (simp add: floor_less_iff)
  from a b have "nat \<lfloor>r * 32\<rfloor> < length chars" by (simp add: chars_length nat_less_iff)
  then have "chars ! nat \<lfloor>r * 32\<rfloor> \<in> set chars" by (rule nth_mem)
  with a b show ?thesis by (simp add: pick_def chars_length)
qed

lemma makeRoomCode_shape:
  assumes "\<forall>n. 0 \<le> rnd n \<and> rnd n < 1"
  shows "length (makeRoomCode rnd) = 5 \<and> set (makeRoomCode rnd) \<subseteq> set chars"
proof -
  have p: "\<And>i. \<exists>c. pick (rnd i) = [c] \<and> c \<in> set chars"
    using assms pick_in by blast
  obtain c0 where c0: "pick (rnd 0) = [c0]" "c0 \<in> set chars" using p by blast
  obtain c1 where c1: "pick (rnd (Suc 0)) = [c1]" "c1 \<in> set chars" using p by blast
  obtain c2 where c2: "pick (rnd 2) = [c2]" "c2 \<in> set chars" using p by blast
  obtain c3 where c3: "pick (rnd 3) = [c3]" "c3 \<in> set chars" using p by blast
  obtain c4 where c4: "pick (rnd 4) = [c4]" "c4 \<in> set chars" using p by blast
  have "makeRoomCode rnd = [c0, c1, c2, c3, c4]"
    by (simp add: makeRoomCode_def upt5 c0 c1 c2 c3 c4)
  then show ?thesis using c0 c1 c2 c3 c4 by simp
qed

lemma chars_plain: "\<forall>c \<in> set chars. toUpperChar c = c \<and> \<not> isSpace c"
  by (simp add: chars_def toUpperChar_def isSpace_def)

lemma dropWhile_none: "\<forall>c \<in> set s. \<not> P c \<Longrightarrow> dropWhile P s = s"
  by (cases s) auto

lemma trim_id: "\<forall>c \<in> set s. \<not> isSpace c \<Longrightarrow> trim s = s"
  by (simp add: trim_def dropWhile_none)

lemma upper_id: "set s \<subseteq> set chars \<Longrightarrow> map toUpperChar s = s"
  using chars_plain by (simp add: map_idI subset_iff)

lemma normCode_id: "set s \<subseteq> set chars \<Longrightarrow> normCode s = s"
proof -
  assume a: "set s \<subseteq> set chars"
  have "trim s = s" using a chars_plain by (intro trim_id) blast
  then show ?thesis using a by (simp add: normCode_def upper_id)
qed

text \<open>The retry loop returns the first candidate that is not a live code.\<close>

lemma freshCode_first:
  "map_of rs (candidate rnd (k + n)) = None \<Longrightarrow>
   (\<forall>i<n. map_of rs (candidate rnd (k + i)) \<noteq> None) \<Longrightarrow>
   freshCode rnd rs k = Some (candidate rnd (k + n))"
proof (induction n arbitrary: k)
  case 0
  then show ?case by (subst freshCode.simps) simp
next
  case (Suc n)
  have "map_of rs (candidate rnd k) \<noteq> None" using Suc.prems(2)[rule_format, of 0] by simp
  moreover have "freshCode rnd rs (Suc k) = Some (candidate rnd (Suc k + n))"
  proof (rule Suc.IH)
    show "map_of rs (candidate rnd (Suc k + n)) = None" using Suc.prems(1) by simp
    show "\<forall>i<n. map_of rs (candidate rnd (Suc k + i)) \<noteq> None"
      using Suc.prems(2) by (metis Suc_less_eq add_Suc_shift)
  qed
  ultimately show ?case by (subst freshCode.simps) simp
qed

lemma freshCode_returns:
  assumes "map_of rs (candidate rnd m) = None"
  shows "\<exists>code. freshCode rnd rs 0 = Some code"
proof -
  define n where "n = (LEAST j. map_of rs (candidate rnd j) = None)"
  have a: "map_of rs (candidate rnd n) = None"
    unfolding n_def using assms by (rule LeastI)
  have b: "\<forall>i<n. map_of rs (candidate rnd i) \<noteq> None"
    unfolding n_def using not_less_Least by blast
  show ?thesis using freshCode_first[of rs rnd 0 n] a b by simp
qed

lemma freshCode_Some:
  "freshCode rnd rs k = Some c \<Longrightarrow> \<exists>n\<ge>k. c = candidate rnd n \<and> map_of rs c = None"
proof (induction rule: freshCode.raw_induct[where P = "\<lambda>rnd rs k c. \<exists>n\<ge>k. c = candidate rnd n \<and> map_of rs c = None", rotated -1, consumes 1])
  case (1 f rnd rs k c)
  show ?case
  proof (cases "map_of rs (candidate rnd k) = None")
    case True
    with 1(2) have "c = candidate rnd k" by simp
    with True show ?thesis by auto
  next
    case False
    with 1(2) have "f rnd rs (Suc k) = Some c" by simp
    from 1(1)[OF this] obtain n where "Suc k \<le> n" "c = candidate rnd n" "map_of rs c = None"
      by blast
    then show ?thesis using Suc_leD by blast
  qed
qed

lemma update_fresh: "map_of rs k = None \<Longrightarrow> AList.update k v rs = rs @ [(k, v)]"
  by (induction rs) (auto split: if_splits)

text \<open>
  C4 (as amended). The alphabet has 32 characters, all different, none of them 0, O, 1
  or I. Whenever the create reaction returns, it has added one room, as the last entry,
  under a code of exactly 5 characters of the alphabet, which upper-casing and trimming
  leave as it is and which no live room had; and it does return as soon as one attempt
  of the generator gives a code that is not live. (\<open>Math.random()\<close> is in [0,1).)
\<close>

theorem create_room_code:
  assumes "\<forall>n. 0 \<le> rnd n \<and> rnd n < 1"
  shows "length chars = 32 \<and> distinct chars \<and> set chars \<inter> set ''0O1I'' = {}
    \<and> (\<forall>rs' out. onMessage opn rnd ws Create rs = Some (Inr (rs', out)) \<longrightarrow>
          (\<exists>code. length code = 5 \<and> set code \<subseteq> set chars
              \<and> map toUpperChar code = code \<and> normCode code = code
              \<and> code \<notin> fst ` set rs \<and> rs' = rs @ [(code, newRoom ws)]))
    \<and> ((\<exists>k. candidate rnd k \<notin> fst ` set rs) \<longrightarrow>
          (\<exists>rs' out. onMessage opn rnd ws Create rs = Some (Inr (rs', out))))"
proof -
  have alphabet: "length chars = 32 \<and> distinct chars \<and> set chars \<inter> set ''0O1I'' = {}"
    by (simp add: chars_def)
  have produced: "\<exists>code. length code = 5 \<and> set code \<subseteq> set chars
              \<and> map toUpperChar code = code \<and> normCode code = code
              \<and> code \<notin> fst ` set rs \<and> rs' = rs @ [(code, newRoom ws)]"
    if r: "onMessage opn rnd ws Create rs = Some (Inr (rs', out))" for rs' out
  proof -
    from r obtain code where c: "freshCode rnd rs 0 = Some code"
      and rs': "rs' = fst (create opn ws code rs)"
      by (auto simp: onMessage_def)
    from freshCode_Some[OF c] obtain n where n: "code = candidate rnd n" "map_of rs code = None"
      by blast
    have shape: "length code = 5 \<and> set code \<subseteq> set chars"
      unfolding n(1) candidate_def using assms by (intro makeRoomCode_shape) simp
    have "rs' = rs @ [(code, newRoom ws)]"
      using rs' n(2) by (simp add: create_def Let_def update_fresh)
    moreover have "code \<notin> fst ` set rs" using n(2) by (simp add: map_of_eq_None_iff)
    ultimately show ?thesis using shape by (simp add: upper_id normCode_id)
  qed
  have returns: "\<exists>rs' out. onMessage opn rnd ws Create rs = Some (Inr (rs', out))"
    if "\<exists>k. candidate rnd k \<notin> fst ` set rs"
  proof -
    from that obtain k where "map_of rs (candidate rnd k) = None"
      by (auto simp: map_of_eq_None_iff)
    from freshCode_returns[OF this] obtain code where "freshCode rnd rs 0 = Some code" by blast
    then show ?thesis by (simp add: onMessage_def create_def Let_def)
  qed
  from alphabet produced returns show ?thesis by blast
qed

theorem create_room_code_witness:
  "(\<forall>n. (0::rat) \<le> (\<lambda>_. 0) n \<and> (\<lambda>_. 0::rat) n < 1)
   \<and> onMessage (\<lambda>_. True) (\<lambda>_. 0) 1 Create [] = Some (Inr (create (\<lambda>_. True) 1 ''AAAAA'' []))
   \<and> fst (create (\<lambda>_. True) 1 ''AAAAA'' []) = [(''AAAAA'', newRoom 1)]
   \<and> length ''AAAAA'' = 5 \<and> set ''AAAAA'' \<subseteq> set chars \<and> normCode ''AAAAA'' = ''AAAAA''"
proof -
  have h: "\<forall>n. (0::rat) \<le> (\<lambda>_. 0) n \<and> (\<lambda>_. 0::rat) n < 1" by simp
  have c: "candidate (\<lambda>_. 0) 0 = ''AAAAA''"
    by (simp add: candidate_def makeRoomCode_def upt5 pick_def chars_def)
  have f: "freshCode (\<lambda>_. 0) [] 0 = Some ''AAAAA''"
    by (subst freshCode.simps) (simp add: c)
  have r: "onMessage (\<lambda>_. True) (\<lambda>_. 0) 1 Create []
             = Some (Inr (create (\<lambda>_. True) 1 ''AAAAA'' []))"
    by (simp add: onMessage_def f)
  have e: "fst (create (\<lambda>_. True) 1 ''AAAAA'' []) = [(''AAAAA'', newRoom 1)]"
    by (simp add: create_def Let_def)
  have "\<exists>code. length code = 5 \<and> set code \<subseteq> set chars \<and> normCode code = code
          \<and> fst (create (\<lambda>_. True) 1 ''AAAAA'' []) = [] @ [(code, newRoom 1)]"
    using create_room_code[OF h, of "\<lambda>_. True" 1 "[]"] r
    by (cases "create (\<lambda>_. True) 1 ''AAAAA'' []") auto
  then obtain code where p: "length code = 5" "set code \<subseteq> set chars" "normCode code = code"
    and q: "fst (create (\<lambda>_. True) 1 ''AAAAA'' []) = [] @ [(code, newRoom 1)]"
    by blast
  from q have "code = ''AAAAA''" unfolding e by simp
  with p h r e show ?thesis by blast
qed

text \<open>C4 as stated: the alphabet of the source does not have 33 characters.\<close>

theorem alphabet_size_counterexample: "length chars \<noteq> 33"
  by (simp add: chars_def)

section \<open>Moves\<close>

lemma slotsOk_member:
  assumes "slotsOk room"
  shows "Some ws \<in> set (players room) \<longleftrightarrow> (\<exists>you. symbols room ws = Some you \<and> you \<noteq> [])"
proof -
  from assms obtain p0 p1 where p: "players room = [p0, p1]" "p0 \<noteq> p1"
    "symbols room = (\<lambda>c. if p0 = Some c then Some ''X'' else if p1 = Some c then Some ''O'' else None)"
    by (rule slotsOkD)
  then show ?thesis by auto
qed

lemma slotsOk_symbol:
  assumes "slotsOk room" "symbols room ws = Some you"
  shows "you = ''X'' \<or> you = ''O''"
proof -
  from assms(1) obtain p0 p1 where p: "players room = [p0, p1]" "p0 \<noteq> p1"
    "symbols room = (\<lambda>c. if p0 = Some c then Some ''X'' else if p1 = Some c then Some ''O'' else None)"
    by (rule slotsOkD)
  with assms(2) show ?thesis by (auto split: if_splits)
qed

lemma slotsOk_slot:
  assumes "slotsOk room"
  shows "symbols room ws = (if players room ! 0 = Some ws then Some ''X''
                            else if players room ! 1 = Some ws then Some ''O'' else None)"
proof -
  from assms obtain p0 p1 where p: "players room = [p0, p1]" "p0 \<noteq> p1"
    "symbols room = (\<lambda>c. if p0 = Some c then Some ''X'' else if p1 = Some c then Some ''O'' else None)"
    by (rule slotsOkD)
  then show ?thesis by auto
qed

lemma slotsOk_full:
  assumes "slotsOk room"
  shows "\<not> playersCount room < 2 \<longleftrightarrow> (\<forall>p \<in> set (players room). p \<noteq> None)"
proof -
  from assms obtain p0 p1 where p: "players room = [p0, p1]"
    by (rule slotsOkD)
  then show ?thesis by (auto simp: playersCount_def)
qed

lemma move_accept:
  assumes "map_of rs (normCode raw) = Some room" "symbols room ws = Some (turn room)"
    "turn room \<noteq> []" "\<not> gameOver room" "\<not> badIndex i" "\<not> playersCount room < 2"
    "arrayIndex (board room) i = Some n" "board room ! n = []"
  shows "move opn ws raw i rs =
     (AList.update (normCode raw) (place room n (turn room)) rs,
      (if gameOver (place room n (turn room))
       then broadcastRoom opn (AList.update (normCode raw) (place room n (turn room)) rs) (normCode raw)
              (GameOver (case winnerOf (board (place room n (turn room))) of None \<Rightarrow> ''D'' | Some w \<Rightarrow> w))
       else [])
      @ broadcastRoom opn (AList.update (normCode raw) (place room n (turn room)) rs) (normCode raw)
          (StateMsg (roomState (AList.update (normCode raw) (place room n (turn room)) rs) (normCode raw))))"
  using assms by (simp add: move_def Let_def)

lemma move_reject:
  assumes "\<not> (\<exists>room n. map_of rs (normCode raw) = Some room \<and> symbols room ws = Some (turn room)
      \<and> turn room \<noteq> [] \<and> \<not> gameOver room \<and> \<not> badIndex i \<and> \<not> playersCount room < 2
      \<and> arrayIndex (board room) i = Some n \<and> board room ! n = [])"
  shows "fst (move opn ws raw i rs) = rs"
  using assms by (auto simp: move_def Let_def split: option.splits)

lemma accepted_code:
  "accepted opn ws raw i rs \<longleftrightarrow>
     (\<exists>room n. map_of rs (normCode raw) = Some room \<and> symbols room ws = Some (turn room)
      \<and> turn room \<noteq> [] \<and> \<not> gameOver room \<and> \<not> badIndex i \<and> \<not> playersCount room < 2
      \<and> arrayIndex (board room) i = Some n \<and> board room ! n = [])"
  (is "?L \<longleftrightarrow> ?R")
proof
  assume ?L
  then have "fst (move opn ws raw i rs) \<noteq> rs" by (auto simp: accepted_def)
  then show ?R using move_reject by blast
next
  assume ?R
  then obtain room n where r: "map_of rs (normCode raw) = Some room" "symbols room ws = Some (turn room)"
    "turn room \<noteq> []" "\<not> gameOver room" "\<not> badIndex i" "\<not> playersCount room < 2"
    "arrayIndex (board room) i = Some n" "board room ! n = []"
    by blast
  from arrayIndexD[OF r(7)] have n: "n < length (board room)" by simp
  have "(board room)[n := turn room] ! n \<noteq> board room ! n" using n r(3,8) by simp
  then have "(board room)[n := turn room] \<noteq> board room" by metis
  then show ?L
    using r(1) by (simp add: accepted_def move_accept[OF r] boardOf_def update_conv' place_fields)
qed

lemma norm_ex: "normCode '' aaaaa'' = ''AAAAA''"
  by (simp add: normCode_def trim_def toUpperChar_def isSpace_def)

lemma exTwo_ok: "roomsOk exTwo"
  by (simp add: roomsOk_def roomOk_def slotsOk_def slotSymbols_def cell_def boardOk_def
      parityOk_def lead_def exTwo_def fun_eq_iff)

text \<open>
  Which moves are accepted, in a registry that satisfies the invariant: those for which
  the room exists, the requester occupies a slot of it, the game is not over, the index
  is an integer from 0 to 8, both slots are occupied, the requester's symbol is the
  current turn and the cell at the index is empty.
\<close>

lemma accepted_conditions:
  assumes "roomsOk rs"
  shows "(accepted opn ws raw i rs \<longleftrightarrow>
           (\<exists>room. map_of rs (normCode raw) = Some room
              \<and> Some ws \<in> set (players room)
              \<and> \<not> gameOver room
              \<and> (\<exists>n\<le>8. i = Num (of_nat n)
                   \<and> (\<forall>p \<in> set (players room). p \<noteq> None)
                   \<and> symbols room ws = Some (turn room)
                   \<and> board room ! n = [])))
      \<and> (accepted opn ws raw i rs \<longrightarrow>
           (\<exists>room room' n you. map_of rs (normCode raw) = Some room
              \<and> map_of (fst (move opn ws raw i rs)) (normCode raw) = Some room'
              \<and> i = Num (of_nat n) \<and> symbols room ws = Some you
              \<and> board room' = (board room)[n := you] \<and> board room' ! n = you))
      \<and> (\<not> accepted opn ws raw i rs \<longrightarrow> fst (move opn ws raw i rs) = rs)"
proof -
  let ?code = "normCode raw"
  let ?R = "\<exists>room. map_of rs ?code = Some room
              \<and> Some ws \<in> set (players room)
              \<and> \<not> gameOver room
              \<and> (\<exists>n\<le>8. i = Num (of_nat n)
                   \<and> (\<forall>p \<in> set (players room). p \<noteq> None)
                   \<and> symbols room ws = Some (turn room)
                   \<and> board room ! n = [])"
  have fwd: "?R" if a: "accepted opn ws raw i rs"
  proof -
    from a obtain room n where r: "map_of rs ?code = Some room" "symbols room ws = Some (turn room)"
      "turn room \<noteq> []" "\<not> gameOver room" "\<not> badIndex i" "\<not> playersCount room < 2"
      "arrayIndex (board room) i = Some n" "board room ! n = []"
      unfolding accepted_code by blast
    from roomsOk_lookup[OF assms r(1)] have s: "slotsOk room" and b: "boardOk room"
      by (simp_all add: roomOk_def)
    from s r(2,3) have m: "Some ws \<in> set (players room)" by (simp add: slotsOk_member)
    from s r(6) have f: "\<forall>p \<in> set (players room). p \<noteq> None" by (simp add: slotsOk_full)
    from arrayIndexD[OF r(7)] b have n: "n \<le> 8" "i = Num (of_nat n)" by (simp_all add: boardOk_def)
    from r m f n show ?thesis by blast
  qed
  have bwd: "accepted opn ws raw i rs" if "?R"
  proof -
    from that obtain room n where r: "map_of rs ?code = Some room" "Some ws \<in> set (players room)"
      "\<not> gameOver room" "n \<le> 8" "i = Num (of_nat n)" "\<forall>p \<in> set (players room). p \<noteq> None"
      "symbols room ws = Some (turn room)" "board room ! n = []"
      by blast
    from roomsOk_lookup[OF assms r(1)] have s: "slotsOk room" and b: "boardOk room"
      by (simp_all add: roomOk_def)
    from slotsOk_symbol[OF s r(7)] have t: "turn room \<noteq> []" by auto
    from s r(6) have f: "\<not> playersCount room < 2" by (simp add: slotsOk_full)
    from r(4,5) have bi: "\<not> badIndex i" by simp
    from r(4,5) b have ai: "arrayIndex (board room) i = Some n" by (simp add: boardOk_def)
    show ?thesis unfolding accepted_code using r(1,3,7,8) t f bi ai by blast
  qed
  have eff: "\<exists>room room' n you. map_of rs ?code = Some room
              \<and> map_of (fst (move opn ws raw i rs)) ?code = Some room'
              \<and> i = Num (of_nat n) \<and> symbols room ws = Some you
              \<and> board room' = (board room)[n := you] \<and> board room' ! n = you"
    if a: "accepted opn ws raw i rs"
  proof -
    from a obtain room n where r: "map_of rs ?code = Some room" "symbols room ws = Some (turn room)"
      "turn room \<noteq> []" "\<not> gameOver room" "\<not> badIndex i" "\<not> playersCount room < 2"
      "arrayIndex (board room) i = Some n" "board room ! n = []"
      unfolding accepted_code by blast
    from arrayIndexD[OF r(7)] have n: "n < length (board room)" "i = Num (of_nat n)" by simp_all
    have "map_of (fst (move opn ws raw i rs)) ?code = Some (place room n (turn room))"
      by (simp add: move_accept[OF r] update_conv')
    moreover have "board (place room n (turn room)) ! n = turn room"
      using n by (simp add: place_fields)
    ultimately show ?thesis using r(1,2) n(2) place_fields(3) by blast
  qed
  have rej: "fst (move opn ws raw i rs) = rs" if "\<not> accepted opn ws raw i rs"
    using that unfolding accepted_code by (rule move_reject)
  from fwd bwd eff rej show ?thesis by blast
qed

text \<open>
  C3. An accepted move is made in a game that is not over, and after it exactly one of the
  two holds: the game is over and the turn is the same, or the game is not over and the
  turn has flipped to the other symbol.
\<close>

theorem move_flips_or_ends:
  assumes "accepted opn ws raw i rs"
  shows "\<exists>room room'. map_of rs (normCode raw) = Some room
      \<and> map_of (fst (move opn ws raw i rs)) (normCode raw) = Some room'
      \<and> \<not> gameOver room
      \<and> ((gameOver room' \<and> turn room' = turn room)
          \<or> (\<not> gameOver room' \<and> turn room' \<noteq> turn room
              \<and> turn room' = (if turn room = ''X'' then ''O'' else ''X'')))"
proof -
  from assms obtain room n where r: "map_of rs (normCode raw) = Some room" "symbols room ws = Some (turn room)"
      "turn room \<noteq> []" "\<not> gameOver room" "\<not> badIndex i" "\<not> playersCount room < 2"
      "arrayIndex (board room) i = Some n" "board room ! n = []"
    unfolding accepted_code by blast
  let ?room' = "place room n (turn room)"
  have m: "map_of (fst (move opn ws raw i rs)) (normCode raw) = Some ?room'"
    by (simp add: move_accept[OF r] update_conv')
  have "(gameOver ?room' \<and> turn ?room' = turn room)
          \<or> (\<not> gameOver ?room' \<and> turn ?room' \<noteq> turn room
              \<and> turn ?room' = (if turn room = ''X'' then ''O'' else ''X''))"
    using r(4) by (simp add: place_over place_turn)
  with r(1,4) m show ?thesis by blast
qed

theorem move_flips_or_ends_witness:
  "accepted (\<lambda>_. True) 1 '' aaaaa'' (Num 4) exTwo
   \<and> (\<exists>room room'. map_of exTwo (normCode '' aaaaa'') = Some room
      \<and> map_of (fst (move (\<lambda>_. True) 1 '' aaaaa'' (Num 4) exTwo)) (normCode '' aaaaa'') = Some room'
      \<and> \<not> gameOver room
      \<and> ((gameOver room' \<and> turn room' = turn room)
          \<or> (\<not> gameOver room' \<and> turn room' \<noteq> turn room
              \<and> turn room' = (if turn room = ''X'' then ''O'' else ''X''))))"
proof -
  have a: "accepted (\<lambda>_. True) 1 '' aaaaa'' (Num 4) exTwo" by code_simp
  from move_flips_or_ends[OF a] a show ?thesis by blast
qed

section \<open>Reachable registries\<close>

lemma reachable_create:
  "reachable rs \<Longrightarrow> freshCode rnd rs 0 = Some code \<Longrightarrow> reachable (fst (create opn ws code rs))"
  using reachable.message[of rs opn rnd ws Create "fst (create opn ws code rs)" "snd (create opn ws code rs)"]
  by (simp add: onMessage_def)

lemma reachable_join: "reachable rs \<Longrightarrow> reachable (fst (join opn ws raw rs))"
  using reachable.message[of rs opn "\<lambda>_. 0" ws "Join (JString raw)" "fst (join opn ws raw rs)" "snd (join opn ws raw rs)"]
  by (simp add: onMessage_def)

lemma reachable_move: "reachable rs \<Longrightarrow> reachable (fst (move opn ws raw i rs))"
  using reachable.message[of rs opn "\<lambda>_. 0" ws "Move (JString raw) i" "fst (move opn ws raw i rs)" "snd (move opn ws raw i rs)"]
  by (simp add: onMessage_def)

lemma reachable_restart: "reachable rs \<Longrightarrow> reachable (fst (restart opn ws raw rs))"
  using reachable.message[of rs opn "\<lambda>_. 0" ws "Restart (JString raw)" "fst (restart opn ws raw rs)" "snd (restart opn ws raw rs)"]
  by (simp add: onMessage_def)

lemma fresh_ex: "freshCode (\<lambda>_. 0) [] 0 = Some ''AAAAA''"
  by (subst freshCode.simps)
     (simp add: candidate_def makeRoomCode_def upt5 pick_def chars_def)

lemma rep9: "replicate 9 x = [x, x, x, x, x, x, x, x, x]"
  by (simp add: eval_nat_numeral)

lemma exTwo_steps:
  "fst (join (\<lambda>_. True) 2 '' aaaaa'' (fst (create (\<lambda>_. True) 1 ''AAAAA'' []))) = exTwo"
  by (simp add: create_def join_def newRoom_def norm_ex exTwo_def Let_def rep9)

lemma exTwo_reachable: "reachable exTwo"
  using reachable_join[OF reachable_create[OF reachable.start fresh_ex], of "\<lambda>_. True" 2 "'' aaaaa''" "\<lambda>_. True" 1]
  by (simp only: exTwo_steps)

lemma exMid_steps:
  "fst (move (\<lambda>_. True) 2 ''AAAAA'' (Num 4)
     (fst (move (\<lambda>_. True) 1 ''AAAAA'' (Num 1)
       (fst (move (\<lambda>_. True) 2 ''AAAAA'' (Num 3)
         (fst (move (\<lambda>_. True) 1 ''AAAAA'' (Num 0) exTwo))))))) = exMid"
  by (simp add: move_def normCode_def trim_def toUpperChar_def isSpace_def exTwo_def exMid_def
      playersCount_def place_def Let_def winnerOf_def WINS_def lineWins_def cell_def isDraw_def)

lemma exMid_reachable: "reachable exMid"
  using reachable_move[OF reachable_move[OF reachable_move[OF reachable_move[OF exTwo_reachable]]]]
    exMid_steps by metis

text \<open>
  C9. In every room of every reachable registry, the number of cells holding X minus the
  number of cells holding O is 0 or 1; and while the game is not over, it is 0 exactly
  when the turn is X and 1 exactly when the turn is O.
\<close>

theorem mark_difference:
  assumes "reachable rs" "(code, room) \<in> set rs"
  shows "(lead (board room) = 0 \<or> lead (board room) = 1)
     \<and> (\<not> gameOver room \<longrightarrow>
          (lead (board room) = 0 \<longleftrightarrow> turn room = ''X'')
          \<and> (lead (board room) = 1 \<longleftrightarrow> turn room = ''O''))"
proof -
  from reachable_roomsOk[OF assms(1)] assms(2) have "roomOk room"
    by (auto simp: roomsOk_def list_all_iff)
  then have "parityOk room" by (simp add: roomOk_def)
  then show ?thesis unfolding parityOk_def .
qed

theorem mark_difference_witness:
  "reachable exMid \<and> hd exMid \<in> set exMid
   \<and> \<not> gameOver (snd (hd exMid)) \<and> turn (snd (hd exMid)) = ''X''
   \<and> lead (board (snd (hd exMid))) = 0"
proof -
  have m: "(fst (hd exMid), snd (hd exMid)) \<in> set exMid" by (simp add: exMid_def)
  have g: "\<not> gameOver (snd (hd exMid))" and t: "turn (snd (hd exMid)) = ''X''"
    by (simp_all add: exMid_def)
  from mark_difference[OF exMid_reachable m] g t
  have "lead (board (snd (hd exMid))) = 0" by simp
  with exMid_reachable m g t show ?thesis by simp
qed

section \<open>Restart and joining again\<close>

lemma exMid_ok: "roomsOk exMid"
  using exMid_reachable by (rule reachable_roomsOk)

lemma safeSend_Some: "safeSend opn (Some ws) obj = (if opn ws then [(ws, obj)] else [])"
  by (simp add: safeSend_def)

lemma sent_safeSend: "(c, m) \<in> set (safeSend opn p obj) \<Longrightarrow> m = obj \<and> p = Some c \<and> opn c"
  by (auto simp: safeSend_def split: option.splits if_splits)

lemma sent_broadcastRoom: "(c, m) \<in> set (broadcastRoom opn rs code obj) \<Longrightarrow> m = obj"
  by (auto simp: broadcastRoom_def split: option.splits dest: sent_safeSend)

text \<open>
  C5. When the room exists and the requester occupies a slot of it, restart leaves the
  room with 9 empty cells, turn X and gameOver false, with the same slots and the same
  symbol of every connection, and changes no other room and no code. When the room does
  not exist or the requester is not an occupant, restart changes nothing and sends
  nothing. In no case does restart send an error.
\<close>

theorem restart_effect:
  assumes "roomsOk rs"
  shows "(\<forall>room. map_of rs (normCode raw) = Some room \<and> Some ws \<in> set (players room) \<longrightarrow>
            (\<exists>room'. map_of (fst (restart opn ws raw rs)) (normCode raw) = Some room'
               \<and> board room' = replicate 9 [] \<and> turn room' = ''X'' \<and> \<not> gameOver room'
               \<and> players room' = players room \<and> symbols room' = symbols room)
            \<and> (\<forall>c. c \<noteq> normCode raw \<longrightarrow> map_of (fst (restart opn ws raw rs)) c = map_of rs c)
            \<and> map fst (fst (restart opn ws raw rs)) = map fst rs)
      \<and> ((\<forall>room. map_of rs (normCode raw) = Some room \<longrightarrow> Some ws \<notin> set (players room)) \<longrightarrow>
            restart opn ws raw rs = (rs, []))
      \<and> (\<forall>c e. (c, Error e) \<notin> set (snd (restart opn ws raw rs)))"
proof -
  let ?code = "normCode raw"
  have yes: "(\<exists>room'. map_of (fst (restart opn ws raw rs)) ?code = Some room'
               \<and> board room' = replicate 9 [] \<and> turn room' = ''X'' \<and> \<not> gameOver room'
               \<and> players room' = players room \<and> symbols room' = symbols room)
            \<and> (\<forall>c. c \<noteq> ?code \<longrightarrow> map_of (fst (restart opn ws raw rs)) c = map_of rs c)
            \<and> map fst (fst (restart opn ws raw rs)) = map fst rs"
    if r: "map_of rs ?code = Some room" and m: "Some ws \<in> set (players room)" for room
  proof -
    from roomsOk_lookup[OF assms r] have s: "slotsOk room" by (simp add: roomOk_def)
    from m obtain you where y: "symbols room ws = Some you" "you \<noteq> []"
      using slotsOk_member[OF s] by blast
    let ?room' = "room\<lparr>board := replicate 9 [], turn := ''X'', gameOver := False\<rparr>"
    have f: "fst (restart opn ws raw rs) = AList.update ?code ?room' rs"
      using r y by (simp add: restart_def Let_def)
    from r have "?code \<in> fst ` set rs" by (rule map_of_SomeD[THEN imageI, of _ _ _ fst, simplified])
    then have k: "map fst (AList.update ?code ?room' rs) = map fst rs"
      by (simp add: update_keys)
    have "map_of (AList.update ?code ?room' rs) ?code = Some ?room'" by (simp add: update_conv')
    with f k show ?thesis by (simp add: update_conv')
  qed
  have no: "restart opn ws raw rs = (rs, [])"
    if n: "\<forall>room. map_of rs ?code = Some room \<longrightarrow> Some ws \<notin> set (players room)"
  proof (cases "map_of rs ?code")
    case None
    then show ?thesis by (simp add: restart_def)
  next
    case (Some room)
    from roomsOk_lookup[OF assms Some] have s: "slotsOk room" by (simp add: roomOk_def)
    from n Some have "Some ws \<notin> set (players room)" by simp
    then have "\<not> (\<exists>you. symbols room ws = Some you \<and> you \<noteq> [])"
      using slotsOk_member[OF s] by simp
    with Some show ?thesis by (cases "symbols room ws") (auto simp: restart_def Let_def)
  qed
  have ne: "(c, Error e) \<notin> set (snd (restart opn ws raw rs))" for c e
    by (auto simp: restart_def Let_def split: option.splits dest: sent_broadcastRoom)
  from yes no ne show ?thesis by blast
qed

theorem restart_effect_witness:
  "roomsOk exMid
   \<and> (\<exists>room. map_of exMid (normCode ''aaaaa'') = Some room \<and> Some 2 \<in> set (players room))
   \<and> (\<exists>room'. map_of (fst (restart (\<lambda>_. True) 2 ''aaaaa'' exMid)) (normCode ''aaaaa'') = Some room'
               \<and> board room' = replicate 9 [] \<and> turn room' = ''X'' \<and> \<not> gameOver room')
   \<and> \<not> (\<exists>room. map_of exMid (normCode ''aaaaa'') = Some room \<and> Some 3 \<in> set (players room))
   \<and> restart (\<lambda>_. True) 3 ''aaaaa'' exMid = (exMid, [])"
proof -
  have n: "normCode ''aaaaa'' = ''AAAAA''"
    by (simp add: normCode_def trim_def toUpperChar_def isSpace_def)
  have a: "\<exists>room. map_of exMid (normCode ''aaaaa'') = Some room \<and> Some 2 \<in> set (players room)"
    by (simp add: n exMid_def)
  have b: "\<forall>room. map_of exMid (normCode ''aaaaa'') = Some room \<longrightarrow> Some 3 \<notin> set (players room)"
    by (simp add: n exMid_def)
  from restart_effect[OF exMid_ok, of "''aaaaa''" 3 "\<lambda>_. True"] b
  have c: "restart (\<lambda>_. True) 3 ''aaaaa'' exMid = (exMid, [])" by blast
  from restart_effect[OF exMid_ok, of "''aaaaa''" 2 "\<lambda>_. True"] a
  have d: "\<exists>room'. map_of (fst (restart (\<lambda>_. True) 2 ''aaaaa'' exMid)) (normCode ''aaaaa'') = Some room'
               \<and> board room' = replicate 9 [] \<and> turn room' = ''X'' \<and> \<not> gameOver room'"
    by blast
  from b have b': "\<not> (\<exists>room. map_of exMid (normCode ''aaaaa'') = Some room \<and> Some 3 \<in> set (players room))"
    by blast
  from exMid_ok a d b' c show ?thesis by (intro conjI)
qed

text \<open>
  C7. A join by a connection that already occupies a slot of the room it names changes
  nothing: the requester is sent (if its connection is open) the join confirmation with
  the symbol it has, which is the symbol of its slot, and then the current state; and
  joining once more gives the same again.
\<close>

theorem join_again:
  assumes "roomsOk rs" "map_of rs (normCode raw) = Some room" "Some ws \<in> set (players room)"
  shows "join opn ws raw rs =
           (rs, safeSend opn (Some ws) (Joined (normCode raw) (symbols room ws))
                @ safeSend opn (Some ws)
                    (StateMsg (Some (board room, turn room, gameOver room, playersCount room))))
      \<and> symbols room ws = Some (if players room ! 0 = Some ws then ''X'' else ''O'')
      \<and> (opn ws \<longrightarrow> snd (join opn ws raw rs) =
            [(ws, Joined (normCode raw) (symbols room ws)),
             (ws, StateMsg (Some (board room, turn room, gameOver room, playersCount room)))])
      \<and> join opn ws raw (fst (join opn ws raw rs)) = join opn ws raw rs"
proof -
  have j: "join opn ws raw rs =
           (rs, safeSend opn (Some ws) (Joined (normCode raw) (symbols room ws))
                @ safeSend opn (Some ws)
                    (StateMsg (Some (board room, turn room, gameOver room, playersCount room))))"
    using assms(2,3) by (simp add: join_def Let_def roomState_def)
  from roomsOk_lookup[OF assms(1,2)] have s: "slotsOk room" by (simp add: roomOk_def)
  from s obtain p0 p1 where p: "players room = [p0, p1]" by (rule slotsOkD)
  have y: "symbols room ws = Some (if players room ! 0 = Some ws then ''X'' else ''O'')"
    using assms(3) p by (auto simp: slotsOk_slot[OF s])
  from j y show ?thesis by (simp add: safeSend_Some)
qed

theorem join_again_witness:
  "roomsOk exMid \<and> map_of exMid (normCode ''aaaaa'') = Some (snd (hd exMid))
   \<and> Some 2 \<in> set (players (snd (hd exMid)))
   \<and> join (\<lambda>_. True) 2 ''aaaaa'' exMid =
        (exMid, [(2, Joined ''AAAAA'' (Some ''O'')),
                 (2, StateMsg (Some ([''X'', ''X'', [], ''O'', ''O'', [], [], [], []], ''X'', False, 2)))])"
proof -
  have n: "normCode ''aaaaa'' = ''AAAAA''"
    by (simp add: normCode_def trim_def toUpperChar_def isSpace_def)
  have a: "map_of exMid (normCode ''aaaaa'') = Some (snd (hd exMid))" by (simp add: n exMid_def)
  have b: "Some 2 \<in> set (players (snd (hd exMid)))" by (simp add: exMid_def)
  from join_again[OF exMid_ok a b, of "\<lambda>_. True"] a b exMid_ok show ?thesis
    by (simp add: n exMid_def playersCount_def safeSend_Some)
qed

section \<open>Errors and indices that are not integers\<close>

lemma exOne_reachable: "reachable exOne"
proof -
  have "fst (create (\<lambda>_. True) 1 ''AAAAA'' []) = exOne"
    by (simp add: create_def exOne_def Let_def)
  with reachable_create[OF reachable.start fresh_ex, of "\<lambda>_. True" 1] show ?thesis by simp
qed

lemma exOne_ok: "roomsOk exOne"
  using exOne_reachable by (rule reachable_roomsOk)

lemma safeSend_error:
  "(c, Error e) \<in> set (safeSend opn (Some ws) (Error e0)) \<Longrightarrow>
   safeSend opn (Some ws) (Error e0) = [(ws, Error e)]"
  by (auto simp: safeSend_def split: if_splits)

lemma join_error:
  assumes "(c, Error e) \<in> set (snd (join opn ws raw rs))"
  shows "join opn ws raw rs = (rs, [(ws, Error e)])"
proof (cases "map_of rs (normCode raw)")
  case None
  then have j: "join opn ws raw rs = (rs, safeSend opn (Some ws) (Error RoomNotFound))"
    by (simp add: join_def)
  with assms show ?thesis by (simp add: safeSend_error)
next
  case (Some room)
  show ?thesis
  proof (cases "Some ws \<in> set (players room)")
    case True
    with Some have "snd (join opn ws raw rs) =
        safeSend opn (Some ws) (Joined (normCode raw) (symbols room ws))
        @ safeSend opn (Some ws) (StateMsg (roomState rs (normCode raw)))"
      by (simp add: join_def Let_def)
    with assms show ?thesis by (auto dest: sent_safeSend)
  next
    case False
    show ?thesis
    proof (cases "findIndex (\<lambda>p. p = None) (players room)")
      case None
      with \<open>map_of rs (normCode raw) = Some room\<close> False
      have "join opn ws raw rs = (rs, safeSend opn (Some ws) (Error RoomFull))"
        by (simp add: join_def Let_def)
      with assms show ?thesis by (simp add: safeSend_error)
    next
      case (Some k)
      with \<open>map_of rs (normCode raw) = Some room\<close> False
      have "\<exists>rs' m1 m2 m3 m4. snd (join opn ws raw rs) =
          safeSend opn (Some ws) (Joined (normCode raw) m1) @ safeSend opn (Some ws) (StateMsg m2)
          @ broadcastRoom opn rs' (normCode raw) (Info m3)
          @ broadcastRoom opn rs' (normCode raw) (StateMsg m4)"
        by (simp add: join_def Let_def) blast
      with assms show ?thesis by (auto dest: sent_safeSend sent_broadcastRoom)
    qed
  qed
qed

lemma move_rejected_reply:
  assumes "\<not> (\<exists>room n. map_of rs (normCode raw) = Some room \<and> symbols room ws = Some (turn room)
      \<and> turn room \<noteq> [] \<and> \<not> gameOver room \<and> \<not> badIndex i \<and> \<not> playersCount room < 2
      \<and> arrayIndex (board room) i = Some n \<and> board room ! n = [])"
  shows "snd (move opn ws raw i rs) = []
     \<or> (\<exists>e0. snd (move opn ws raw i rs) = safeSend opn (Some ws) (Error e0))"
  using assms by (auto simp: move_def Let_def split: option.splits)

lemma move_error:
  assumes "(c, Error e) \<in> set (snd (move opn ws raw i rs))"
  shows "move opn ws raw i rs = (rs, [(ws, Error e)])"
proof (cases "\<exists>room n. map_of rs (normCode raw) = Some room \<and> symbols room ws = Some (turn room)
      \<and> turn room \<noteq> [] \<and> \<not> gameOver room \<and> \<not> badIndex i \<and> \<not> playersCount room < 2
      \<and> arrayIndex (board room) i = Some n \<and> board room ! n = []")
  case True
  then obtain room n where r: "map_of rs (normCode raw) = Some room" "symbols room ws = Some (turn room)"
      "turn room \<noteq> []" "\<not> gameOver room" "\<not> badIndex i" "\<not> playersCount room < 2"
      "arrayIndex (board room) i = Some n" "board room ! n = []"
    by blast
  from assms have False
    unfolding move_accept[OF r] by (auto split: if_splits dest: sent_broadcastRoom)
  then show ?thesis ..
next
  case False
  from move_reject[OF False] have f: "fst (move opn ws raw i rs) = rs" .
  from move_rejected_reply[OF False, of opn] assms
  obtain e0 where s: "snd (move opn ws raw i rs) = safeSend opn (Some ws) (Error e0)"
    by fastforce
  with assms have "snd (move opn ws raw i rs) = [(ws, Error e)]"
    by (simp add: safeSend_error)
  with f show ?thesis by (simp add: prod_eq_iff)
qed

lemma restart_error: "(c, Error e) \<notin> set (snd (restart opn ws raw rs))"
  by (auto simp: restart_def Let_def split: option.splits dest: sent_broadcastRoom)

lemma create_error: "(c, Error e) \<notin> set (snd (create opn ws code rs))"
  by (auto simp: create_def Let_def safeSend_Some)

lemma cleanupScan_error: "(c, Error e) \<notin> set (snd (cleanupScan opn ws rest rs))"
  by (induction rest) (auto simp: Let_def split: option.splits dest: sent_broadcastRoom)

lemma onMessage_error:
  assumes "onMessage opn rnd ws msg rs = Some (Inr (rs', out))" "(c, Error e) \<in> set out"
  shows "rs' = rs \<and> out = [(ws, Error e)]"
proof (cases msg)
  case Create
  with assms obtain code where "create opn ws code rs = (rs', out)"
    by (auto simp: onMessage_def)
  with assms(2) create_error[of c e opn ws code rs] show ?thesis by simp
next
  case (Join f)
  with assms obtain raw where "join opn ws raw rs = (rs', out)"
    by (auto simp: onMessage_def split: option.splits)
  with assms(2) join_error[of c e opn ws raw rs] show ?thesis by simp
next
  case (Move f i)
  with assms obtain raw where "move opn ws raw i rs = (rs', out)"
    by (auto simp: onMessage_def split: option.splits)
  with assms(2) move_error[of c e opn ws raw i rs] show ?thesis by simp
next
  case (Restart f)
  with assms obtain raw where "restart opn ws raw rs = (rs', out)"
    by (auto simp: onMessage_def split: option.splits)
  with assms(2) restart_error[of c e opn ws raw rs] show ?thesis by simp
next
  case OtherType
  with assms show ?thesis by (simp add: onMessage_def)
next
  case Unparsable
  with assms show ?thesis by (simp add: onMessage_def)
next
  case NullMsg
  with assms show ?thesis by (simp add: onMessage_def)
qed

lemma findIndex_None: "findIndex P xs = None \<longleftrightarrow> (\<forall>x \<in> set xs. \<not> P x)"
  by (induction xs) auto

lemma join_not_found:
  "map_of rs (normCode raw) = None \<Longrightarrow>
   join opn ws raw rs = (rs, safeSend opn (Some ws) (Error RoomNotFound))"
  by (simp add: join_def)

lemma join_full:
  assumes "map_of rs (normCode raw) = Some room" "Some ws \<notin> set (players room)"
    "\<forall>p \<in> set (players room). p \<noteq> None"
  shows "join opn ws raw rs = (rs, safeSend opn (Some ws) (Error RoomFull))"
proof -
  from assms(3) have "findIndex (\<lambda>p. p = None) (players room) = None"
    by (simp add: findIndex_None)
  with assms(1,2) show ?thesis by (simp add: join_def)
qed

lemma move_no_room: "map_of rs (normCode raw) = None \<Longrightarrow> move opn ws raw i rs = (rs, [])"
  by (simp add: move_def)

lemma move_not_member:
  assumes "roomsOk rs" and r: "map_of rs (normCode raw) = Some room"
    and n: "Some ws \<notin> set (players room)"
  shows "move opn ws raw i rs = (rs, safeSend opn (Some ws) (Error NotInRoom))"
proof -
  from roomsOk_lookup[OF assms(1) r] have s: "slotsOk room" by (simp add: roomOk_def)
  from n have "\<not> (\<exists>you. symbols room ws = Some you \<and> you \<noteq> [])"
    using slotsOk_member[OF s] by simp
  with r show ?thesis by (cases "symbols room ws") (auto simp: move_def)
qed

lemma move_over:
  assumes "roomsOk rs" and r: "map_of rs (normCode raw) = Some room"
    and m: "Some ws \<in> set (players room)" and o: "gameOver room"
  shows "move opn ws raw i rs = (rs, [])"
proof -
  from roomsOk_lookup[OF assms(1) r] have s: "slotsOk room" by (simp add: roomOk_def)
  from m obtain you where y: "symbols room ws = Some you" "you \<noteq> []"
    using slotsOk_member[OF s] by blast
  with r o show ?thesis by (simp add: move_def)
qed

lemma move_waiting:
  assumes "roomsOk rs" and r: "map_of rs (normCode raw) = Some room"
    and m: "Some ws \<in> set (players room)"
    and o: "\<not> gameOver room" "\<not> badIndex i" and w: "\<exists>p \<in> set (players room). p = None"
  shows "move opn ws raw i rs = (rs, safeSend opn (Some ws) (Error WaitingSecond))"
proof -
  from roomsOk_lookup[OF assms(1) r] have s: "slotsOk room" by (simp add: roomOk_def)
  from m obtain you where y: "symbols room ws = Some you" "you \<noteq> []"
    using slotsOk_member[OF s] by blast
  from w have "playersCount room < 2" using slotsOk_full[OF s] by auto
  with r y o show ?thesis by (simp add: move_def)
qed

lemma move_not_turn:
  assumes "roomsOk rs" and r: "map_of rs (normCode raw) = Some room"
    and m: "Some ws \<in> set (players room)"
    and o: "\<not> gameOver room" "\<not> badIndex i" and w: "\<forall>p \<in> set (players room). p \<noteq> None"
    and t: "symbols room ws \<noteq> Some (turn room)"
  shows "move opn ws raw i rs = (rs, safeSend opn (Some ws) (Error NotYourTurn))"
proof -
  from roomsOk_lookup[OF assms(1) r] have s: "slotsOk room" by (simp add: roomOk_def)
  from m obtain you where y: "symbols room ws = Some you" "you \<noteq> []"
    using slotsOk_member[OF s] by blast
  from w have "\<not> playersCount room < 2" using slotsOk_full[OF s] by auto
  with r y o t show ?thesis by (auto simp: move_def)
qed

lemma move_no_cell:
  assumes "roomsOk rs" and r: "map_of rs (normCode raw) = Some room"
    and m: "Some ws \<in> set (players room)"
    and o: "\<not> gameOver room" "\<not> badIndex i" and w: "\<forall>p \<in> set (players room). p \<noteq> None"
    and t: "symbols room ws = Some (turn room)"
    and a: "arrayIndex (board room) i = None"
  shows "move opn ws raw i rs = (rs, [])"
proof -
  from roomsOk_lookup[OF assms(1) r] have s: "slotsOk room" by (simp add: roomOk_def)
  from w have "\<not> playersCount room < 2" using slotsOk_full[OF s] by auto
  moreover from slotsOk_symbol[OF s t] have "turn room \<noteq> []" by auto
  ultimately show ?thesis using r o t a by (simp add: move_def Let_def)
qed

text \<open>
  C8. Each of the five reported conditions (room not found and room full on join; not a
  member, waiting for the second player and not your turn on move) returns the registry
  unchanged and sends exactly the error, to the requester (if its connection is open). And
  whatever the message, a reaction that sends an error to anyone has sent nothing but that
  one error, to the requester, and has left the registry unchanged; a disconnect sends no
  error.
\<close>

theorem errors_change_nothing:
  assumes "roomsOk rs"
  shows "(map_of rs (normCode raw) = None \<longrightarrow>
            join opn ws raw rs = (rs, safeSend opn (Some ws) (Error RoomNotFound)))
    \<and> (\<forall>room. map_of rs (normCode raw) = Some room \<and> Some ws \<notin> set (players room)
            \<and> (\<forall>p \<in> set (players room). p \<noteq> None) \<longrightarrow>
            join opn ws raw rs = (rs, safeSend opn (Some ws) (Error RoomFull)))
    \<and> (\<forall>room. map_of rs (normCode raw) = Some room \<and> Some ws \<notin> set (players room) \<longrightarrow>
            move opn ws raw i rs = (rs, safeSend opn (Some ws) (Error NotInRoom)))
    \<and> (\<forall>room. map_of rs (normCode raw) = Some room \<and> Some ws \<in> set (players room)
            \<and> \<not> gameOver room \<and> \<not> badIndex i \<and> (\<exists>p \<in> set (players room). p = None) \<longrightarrow>
            move opn ws raw i rs = (rs, safeSend opn (Some ws) (Error WaitingSecond)))
    \<and> (\<forall>room. map_of rs (normCode raw) = Some room \<and> Some ws \<in> set (players room)
            \<and> \<not> gameOver room \<and> \<not> badIndex i \<and> (\<forall>p \<in> set (players room). p \<noteq> None)
            \<and> symbols room ws \<noteq> Some (turn room) \<longrightarrow>
            move opn ws raw i rs = (rs, safeSend opn (Some ws) (Error NotYourTurn)))
    \<and> safeSend opn (Some ws) (Error e) = (if opn ws then [(ws, Error e)] else [])
    \<and> (\<forall>rnd msg rs' out c e'. onMessage opn rnd ws msg rs = Some (Inr (rs', out))
            \<and> (c, Error e') \<in> set out \<longrightarrow> rs' = rs \<and> out = [(ws, Error e')])
    \<and> (\<forall>c e'. (c, Error e') \<notin> set (snd (cleanupWs opn ws rs)))"
proof -
  have c6: "(c, Error e') \<notin> set (snd (cleanupWs opn ws rs))" for c e'
    by (simp add: cleanupWs_def cleanupScan_error)
  have c7: "rs' = rs \<and> out = [(ws, Error e')]"
    if "onMessage opn rnd ws msg rs = Some (Inr (rs', out)) \<and> (c, Error e') \<in> set out"
    for rnd msg rs' out c e'
    using that onMessage_error by blast
  show ?thesis
    using join_not_found[of rs raw opn ws] join_full[of rs raw _ ws opn]
      move_not_member[OF assms, of raw _ ws opn i] move_waiting[OF assms, of raw _ ws i opn]
      move_not_turn[OF assms, of raw _ ws i opn] c6 c7
    by (simp add: safeSend_Some)
qed

theorem errors_change_nothing_witness:
  "roomsOk exOne
   \<and> map_of exOne (normCode ''ZZZZZ'') = None
   \<and> join (\<lambda>_. True) 2 ''ZZZZZ'' exOne = (exOne, [(2, Error RoomNotFound)])
   \<and> (\<exists>room. map_of exOne (normCode ''AAAAA'') = Some room \<and> Some 1 \<in> set (players room)
         \<and> \<not> gameOver room \<and> \<not> badIndex (Num 4) \<and> (\<exists>p \<in> set (players room). p = None))
   \<and> move (\<lambda>_. True) 1 ''AAAAA'' (Num 4) exOne = (exOne, [(1, Error WaitingSecond)])"
proof -
  have n: "normCode ''ZZZZZ'' = ''ZZZZZ''" "normCode ''AAAAA'' = ''AAAAA''"
    by (simp_all add: normCode_def trim_def toUpperChar_def isSpace_def)
  have a: "map_of exOne (normCode ''ZZZZZ'') = None" by (simp add: n exOne_def)
  have b: "\<exists>room. map_of exOne (normCode ''AAAAA'') = Some room \<and> Some 1 \<in> set (players room)
         \<and> \<not> gameOver room \<and> \<not> badIndex (Num 4) \<and> (\<exists>p \<in> set (players room). p = None)"
    by (simp add: n exOne_def newRoom_def)
  from errors_change_nothing[OF exOne_ok, of "''ZZZZZ''" "\<lambda>_. True" 2] a
  have j: "join (\<lambda>_. True) 2 ''ZZZZZ'' exOne = (exOne, [(2, Error RoomNotFound)])"
    by (simp add: safeSend_Some)
  from errors_change_nothing[OF exOne_ok, of "''AAAAA''" "\<lambda>_. True" 1 "Num 4"] b
  have m: "move (\<lambda>_. True) 1 ''AAAAA'' (Num 4) exOne = (exOne, [(1, Error WaitingSecond)])"
    by (simp add: safeSend_Some)
  from exOne_ok a j b m show ?thesis by blast
qed

lemma arrayIndex_nonint:
  "i = NaN \<or> (\<exists>q. i = Num q \<and> 0 \<le> q \<and> q \<le> 8 \<and> q \<noteq> of_int \<lfloor>q\<rfloor>) \<Longrightarrow>
   arrayIndex arr i = None \<and> \<not> badIndex i"
  by auto

text \<open>
  C10 (as amended). A move whose index is a number in range that is not an integer
  (such as 2.5) or is NaN is never accepted and leaves the registry unchanged. Its
  answer is that of the checks made before the cell is looked up: nothing when the room
  does not exist, the error "not in the room" for a non-member, nothing when the game is
  over, the error "waiting for the second player" when a slot is empty, the error "not
  your turn" when the requester's symbol is not the turn, and nothing otherwise.
\<close>

theorem noninteger_index:
  assumes "roomsOk rs"
    and "i = NaN \<or> (\<exists>q. i = Num q \<and> 0 \<le> q \<and> q \<le> 8 \<and> q \<noteq> of_int \<lfloor>q\<rfloor>)"
  shows "\<not> accepted opn ws raw i rs \<and> fst (move opn ws raw i rs) = rs
     \<and> snd (move opn ws raw i rs) =
         (case map_of rs (normCode raw) of
            None \<Rightarrow> []
          | Some room \<Rightarrow>
              if Some ws \<notin> set (players room) then safeSend opn (Some ws) (Error NotInRoom)
              else if gameOver room then []
              else if \<exists>p \<in> set (players room). p = None
                then safeSend opn (Some ws) (Error WaitingSecond)
              else if symbols room ws \<noteq> Some (turn room)
                then safeSend opn (Some ws) (Error NotYourTurn)
              else [])"
proof -
  have nb: "arrayIndex arr i = None \<and> \<not> badIndex i" for arr :: "string list"
    by (rule arrayIndex_nonint[OF assms(2)])
  then have ai: "arrayIndex arr i = None" for arr :: "string list" by blast
  from nb have bi: "\<not> badIndex i" by blast
  have na: "\<not> accepted opn ws raw i rs" unfolding accepted_code using ai by simp
  then have f: "fst (move opn ws raw i rs) = rs"
    unfolding accepted_code by (rule move_reject)
  have s: "snd (move opn ws raw i rs) =
         (case map_of rs (normCode raw) of
            None \<Rightarrow> []
          | Some room \<Rightarrow>
              if Some ws \<notin> set (players room) then safeSend opn (Some ws) (Error NotInRoom)
              else if gameOver room then []
              else if \<exists>p \<in> set (players room). p = None
                then safeSend opn (Some ws) (Error WaitingSecond)
              else if symbols room ws \<noteq> Some (turn room)
                then safeSend opn (Some ws) (Error NotYourTurn)
              else [])"
  proof (cases "map_of rs (normCode raw)")
    case None
    then show ?thesis by (simp add: move_no_room)
  next
    case (Some room)
    note r = Some
    show ?thesis
    proof (cases "Some ws \<in> set (players room)")
      case False
      have "move opn ws raw i rs = (rs, safeSend opn (Some ws) (Error NotInRoom))"
        using assms(1) r False by (rule move_not_member)
      then show ?thesis by (simp add: r False)
    next
      case m: True
      show ?thesis
      proof (cases "gameOver room")
        case True
        have "move opn ws raw i rs = (rs, [])"
          using assms(1) r m True by (rule move_over)
        then show ?thesis by (simp add: r m True)
      next
        case o: False
        show ?thesis
        proof (cases "\<exists>p \<in> set (players room). p = None")
          case True
          have "move opn ws raw i rs = (rs, safeSend opn (Some ws) (Error WaitingSecond))"
            using assms(1) r m o bi True by (rule move_waiting)
          then show ?thesis using True by (simp add: r m o)
        next
          case False
          then have w: "\<forall>p \<in> set (players room). p \<noteq> None" by metis
          show ?thesis
          proof (cases "symbols room ws = Some (turn room)")
            case True
            have "move opn ws raw i rs = (rs, [])"
              using assms(1) r m o bi w True ai[of "board room"] by (rule move_no_cell)
            then show ?thesis using False by (simp add: r m o True)
          next
            case t: False
            have "move opn ws raw i rs = (rs, safeSend opn (Some ws) (Error NotYourTurn))"
              using assms(1) r m o bi w t by (rule move_not_turn)
            then show ?thesis using False by (simp add: r m o t)
          qed
        qed
      qed
    qed
  qed
  show ?thesis by (intro conjI na f s)
qed

theorem noninteger_index_witness:
  "roomsOk exMid \<and> (5/2 :: rat) \<noteq> of_int \<lfloor>5/2 :: rat\<rfloor>
   \<and> move (\<lambda>_. True) 1 ''AAAAA'' (Num (5/2)) exMid = (exMid, [])
   \<and> move (\<lambda>_. True) 2 ''AAAAA'' (Num (5/2)) exMid = (exMid, [(2, Error NotYourTurn)])"
proof -
  have n: "normCode ''AAAAA'' = ''AAAAA''"
    by (simp add: normCode_def trim_def toUpperChar_def isSpace_def)
  have q: "(5/2 :: rat) \<noteq> of_int \<lfloor>5/2 :: rat\<rfloor>" by code_simp
  have "0 \<le> (5/2 :: rat) \<and> (5/2 :: rat) \<le> 8" by simp
  with q have h: "Num (5/2) = NaN \<or> (\<exists>q. Num (5/2) = Num q \<and> 0 \<le> q \<and> q \<le> 8 \<and> q \<noteq> of_int \<lfloor>q\<rfloor>)"
    by blast
  from noninteger_index[OF exMid_ok h, of "\<lambda>_. True" 1 "''AAAAA''"]
  have a: "move (\<lambda>_. True) 1 ''AAAAA'' (Num (5/2)) exMid = (exMid, [])"
    by (simp add: n exMid_def prod_eq_iff)
  from noninteger_index[OF exMid_ok h, of "\<lambda>_. True" 2 "''AAAAA''"]
  have b: "move (\<lambda>_. True) 2 ''AAAAA'' (Num (5/2)) exMid = (exMid, [(2, Error NotYourTurn)])"
    by (simp add: n exMid_def prod_eq_iff safeSend_Some)
  from exMid_ok q a b show ?thesis by blast
qed

text \<open>
  C10 as stated: in the room that connection 1 has just created, its move at index 2.5
  is answered with the error "waiting for the second player".
\<close>

theorem noninteger_index_counterexample:
  "snd (move (\<lambda>_. True) 1 ''AAAAA'' (Num (5/2)) exOne) = [(1, Error WaitingSecond)]"
  by code_simp

section \<open>Win and draw\<close>

lemma scanWins_find:
  "scanWins bd ls = (case find (lineWins bd) ls of None \<Rightarrow> None | Some (a, b, c) \<Rightarrow> cell bd a)"
  by (induction bd ls rule: scanWins.induct) auto

lemma WINS_bound: "(a, b, c) \<in> set WINS \<Longrightarrow> a < 9 \<and> b < 9 \<and> c < 9"
  by (auto simp: WINS_def)

lemma lineWins_9:
  assumes "length bd = 9" "(a, b, c) \<in> set WINS"
  shows "lineWins bd (a, b, c) \<longleftrightarrow> bd ! a \<noteq> [] \<and> bd ! a = bd ! b \<and> bd ! a = bd ! c"
  using WINS_bound[OF assms(2)] assms(1) by (simp add: lineWins_def cell_def)

lemma winnerOf_9:
  assumes "length bd = 9"
  shows "winnerOf bd = (case find (lineWins bd) WINS of None \<Rightarrow> None | Some (a, b, c) \<Rightarrow> Some (bd ! a))"
proof (cases "find (lineWins bd) WINS")
  case None
  then show ?thesis by (simp add: winnerOf_def scanWins_find)
next
  case (Some l)
  obtain a b c where l: "l = (a, b, c)" by (cases l)
  from Some l have "(a, b, c) \<in> set WINS" by (auto simp: find_Some_iff in_set_conv_nth)
  from WINS_bound[OF this] assms have "cell bd a = Some (bd ! a)" by (simp add: cell_def)
  with Some l show ?thesis by (simp add: winnerOf_def scanWins_find)
qed

lemma winnerOf_mark:
  assumes "length bd = 9" "winnerOf bd = Some w"
  shows "w \<in> set bd \<and> w \<noteq> []"
proof -
  from assms obtain a b c where f: "find (lineWins bd) WINS = Some (a, b, c)" and w: "w = bd ! a"
    by (auto simp: winnerOf_9 split: option.splits)
  from f have m: "(a, b, c) \<in> set WINS" and lw: "lineWins bd (a, b, c)"
    by (auto simp: find_Some_iff in_set_conv_nth)
  from lw lineWins_9[OF assms(1) m] have "bd ! a \<noteq> []" by blast
  moreover from WINS_bound[OF m] assms(1) have "bd ! a \<in> set bd" by simp
  ultimately show ?thesis using w by simp
qed

lemma broadcast_two:
  "map_of rs code = Some room \<Longrightarrow> players room = [Some p0, Some p1] \<Longrightarrow>
   broadcastRoom opn rs code m = safeSend opn (Some p0) m @ safeSend opn (Some p1) m"
  by (simp add: broadcastRoom_def)

lemma slotsOk_two:
  assumes "slotsOk room" "\<not> playersCount room < 2"
  obtains p0 p1 where "players room = [Some p0, Some p1]"
proof -
  from assms(1) obtain a b where ab: "players room = [a, b]" by (rule slotsOkD)
  with assms(2) have "a \<noteq> None \<and> b \<noteq> None" by (auto simp: playersCount_def split: if_splits)
  with ab that show ?thesis by auto
qed

text \<open>
  C2. The lines scanned are the 3 rows, the 3 columns and the 2 diagonals, in this order.
  After an accepted move (in a registry satisfying the invariant of reachable ones) the
  room has both occupants and a board of 9 cells; a line wins iff its three cells are
  equal and not empty; the winner is the first cell of the first winning line in the
  order of the scan; the outcome is a draw iff no line wins and every cell is filled;
  gameOver is set iff there is a winner or a draw. With a winner, it is X or O and both
  occupants are sent (when open) the gameover message with it, then the state; with a
  draw, the gameover message carries D, which is neither symbol; otherwise only the
  state is sent.
\<close>

theorem win_and_draw:
  assumes "roomsOk rs" "accepted opn ws raw i rs"
  shows "WINS = map (\<lambda>r. (3 * r, 3 * r + 1, 3 * r + 2)) [0..<3]
                @ map (\<lambda>c. (c, c + 3, c + 6)) [0..<3] @ [(0, 4, 8), (2, 4, 6)]
    \<and> (\<exists>room' p0 p1.
        map_of (fst (move opn ws raw i rs)) (normCode raw) = Some room'
      \<and> players room' = [Some p0, Some p1] \<and> length (board room') = 9
      \<and> (\<forall>(a, b, c) \<in> set WINS. lineWins (board room') (a, b, c) \<longleftrightarrow>
            board room' ! a \<noteq> [] \<and> board room' ! a = board room' ! b
            \<and> board room' ! a = board room' ! c)
      \<and> winnerOf (board room') =
           (case find (lineWins (board room')) WINS of
              None \<Rightarrow> None | Some (a, b, c) \<Rightarrow> Some (board room' ! a))
      \<and> (isDraw (board room') \<longleftrightarrow>
            find (lineWins (board room')) WINS = None \<and> (\<forall>v \<in> set (board room'). v \<noteq> []))
      \<and> (gameOver room' \<longleftrightarrow> winnerOf (board room') \<noteq> None \<or> isDraw (board room'))
      \<and> (\<forall>w. winnerOf (board room') = Some w \<longrightarrow>
            (w = ''X'' \<or> w = ''O'')
            \<and> snd (move opn ws raw i rs) =
                safeSend opn (Some p0) (GameOver w) @ safeSend opn (Some p1) (GameOver w)
                @ safeSend opn (Some p0) (StateMsg (Some (board room', turn room', True, 2)))
                @ safeSend opn (Some p1) (StateMsg (Some (board room', turn room', True, 2))))
      \<and> (isDraw (board room') \<longrightarrow>
            snd (move opn ws raw i rs) =
                safeSend opn (Some p0) (GameOver ''D'') @ safeSend opn (Some p1) (GameOver ''D'')
                @ safeSend opn (Some p0) (StateMsg (Some (board room', turn room', True, 2)))
                @ safeSend opn (Some p1) (StateMsg (Some (board room', turn room', True, 2))))
      \<and> (\<not> gameOver room' \<longrightarrow>
            snd (move opn ws raw i rs) =
                safeSend opn (Some p0) (StateMsg (Some (board room', turn room', False, 2)))
                @ safeSend opn (Some p1) (StateMsg (Some (board room', turn room', False, 2)))))
    \<and> ''D'' \<noteq> ''X'' \<and> ''D'' \<noteq> ''O''"
proof -
  let ?code = "normCode raw"
  have lines: "WINS = map (\<lambda>r. (3 * r, 3 * r + 1, 3 * r + 2)) [0..<3]
                @ map (\<lambda>c. (c, c + 3, c + 6)) [0..<3] @ [(0, 4, 8), (2, 4, 6)]"
    by (simp add: WINS_def upt_rec)
  from assms(2) obtain room n where r: "map_of rs ?code = Some room" "symbols room ws = Some (turn room)"
      "turn room \<noteq> []" "\<not> gameOver room" "\<not> badIndex i" "\<not> playersCount room < 2"
      "arrayIndex (board room) i = Some n" "board room ! n = []"
    unfolding accepted_code by blast
  define room' where "room' = place room n (turn room)"
  define rs' where "rs' = AList.update ?code room' rs"
  from roomsOk_lookup[OF assms(1) r(1)] have ro: "roomOk room" .
  from arrayIndexD[OF r(7)] have n: "n < length (board room)" by simp
  from place_roomOk[OF ro r(4) n r(8)] have ro': "roomOk room'" by (simp add: room'_def)
  then have len: "length (board room') = 9"
    and marks: "set (board room') \<subseteq> {[], ''X'', ''O''}"
    by (simp_all add: roomOk_def boardOk_def)
  from ro have "slotsOk room" by (simp add: roomOk_def)
  then obtain p0 p1 where pl: "players room = [Some p0, Some p1]"
    using r(6) by (rule slotsOk_two)
  then have pl': "players room' = [Some p0, Some p1]" by (simp add: room'_def place_fields)
  then have pc: "playersCount room' = 2" by (simp add: playersCount_def)
  have m: "map_of rs' ?code = Some room'" by (simp add: rs'_def update_conv')
  have mv: "move opn ws raw i rs =
     (rs', (if gameOver room'
            then broadcastRoom opn rs' ?code
                   (GameOver (case winnerOf (board room') of None \<Rightarrow> ''D'' | Some w \<Rightarrow> w))
            else [])
           @ broadcastRoom opn rs' ?code (StateMsg (roomState rs' ?code)))"
    unfolding rs'_def room'_def by (rule move_accept[OF r])
  have st: "roomState rs' ?code = Some (board room', turn room', gameOver room', 2)"
    using m pc by (simp add: roomState_def)
  have bc: "broadcastRoom opn rs' ?code msg = safeSend opn (Some p0) msg @ safeSend opn (Some p1) msg"
    for msg using m pl' by (rule broadcast_two)
  have over: "gameOver room' \<longleftrightarrow> winnerOf (board room') \<noteq> None \<or> isDraw (board room')"
    using r(4) by (simp add: room'_def place_over place_fields)
  have lw: "\<forall>(a, b, c) \<in> set WINS. lineWins (board room') (a, b, c) \<longleftrightarrow>
            board room' ! a \<noteq> [] \<and> board room' ! a = board room' ! b
            \<and> board room' ! a = board room' ! c"
    using lineWins_9[OF len] by auto
  have wf: "winnerOf (board room') =
           (case find (lineWins (board room')) WINS of
              None \<Rightarrow> None | Some (a, b, c) \<Rightarrow> Some (board room' ! a))"
    by (rule winnerOf_9[OF len])
  have dr: "isDraw (board room') \<longleftrightarrow>
            find (lineWins (board room')) WINS = None \<and> (\<forall>v \<in> set (board room'). v \<noteq> [])"
    by (auto simp: isDraw_def wf list_all_iff split: option.splits)
  have win: "(w = ''X'' \<or> w = ''O'')
            \<and> snd (move opn ws raw i rs) =
                safeSend opn (Some p0) (GameOver w) @ safeSend opn (Some p1) (GameOver w)
                @ safeSend opn (Some p0) (StateMsg (Some (board room', turn room', True, 2)))
                @ safeSend opn (Some p1) (StateMsg (Some (board room', turn room', True, 2)))"
    if w: "winnerOf (board room') = Some w" for w
  proof -
    from winnerOf_mark[OF len w] marks have "w = ''X'' \<or> w = ''O''" by auto
    moreover from w over have "gameOver room'" by simp
    ultimately show ?thesis using w by (simp add: mv st bc)
  qed
  have draw: "snd (move opn ws raw i rs) =
                safeSend opn (Some p0) (GameOver ''D'') @ safeSend opn (Some p1) (GameOver ''D'')
                @ safeSend opn (Some p0) (StateMsg (Some (board room', turn room', True, 2)))
                @ safeSend opn (Some p1) (StateMsg (Some (board room', turn room', True, 2)))"
    if d: "isDraw (board room')"
  proof -
    from d have "winnerOf (board room') = None" by (simp add: isDraw_def)
    moreover from d over have "gameOver room'" by simp
    ultimately show ?thesis by (simp add: mv st bc)
  qed
  have cont: "snd (move opn ws raw i rs) =
                safeSend opn (Some p0) (StateMsg (Some (board room', turn room', False, 2)))
                @ safeSend opn (Some p1) (StateMsg (Some (board room', turn room', False, 2)))"
    if "\<not> gameOver room'"
    using that by (simp add: mv st bc)
  have m': "map_of (fst (move opn ws raw i rs)) ?code = Some room'" using m by (simp add: mv)
  have ex: "\<exists>room' p0 p1.
        map_of (fst (move opn ws raw i rs)) (normCode raw) = Some room'
      \<and> players room' = [Some p0, Some p1] \<and> length (board room') = 9
      \<and> (\<forall>(a, b, c) \<in> set WINS. lineWins (board room') (a, b, c) \<longleftrightarrow>
            board room' ! a \<noteq> [] \<and> board room' ! a = board room' ! b
            \<and> board room' ! a = board room' ! c)
      \<and> winnerOf (board room') =
           (case find (lineWins (board room')) WINS of
              None \<Rightarrow> None | Some (a, b, c) \<Rightarrow> Some (board room' ! a))
      \<and> (isDraw (board room') \<longleftrightarrow>
            find (lineWins (board room')) WINS = None \<and> (\<forall>v \<in> set (board room'). v \<noteq> []))
      \<and> (gameOver room' \<longleftrightarrow> winnerOf (board room') \<noteq> None \<or> isDraw (board room'))
      \<and> (\<forall>w. winnerOf (board room') = Some w \<longrightarrow>
            (w = ''X'' \<or> w = ''O'')
            \<and> snd (move opn ws raw i rs) =
                safeSend opn (Some p0) (GameOver w) @ safeSend opn (Some p1) (GameOver w)
                @ safeSend opn (Some p0) (StateMsg (Some (board room', turn room', True, 2)))
                @ safeSend opn (Some p1) (StateMsg (Some (board room', turn room', True, 2))))
      \<and> (isDraw (board room') \<longrightarrow>
            snd (move opn ws raw i rs) =
                safeSend opn (Some p0) (GameOver ''D'') @ safeSend opn (Some p1) (GameOver ''D'')
                @ safeSend opn (Some p0) (StateMsg (Some (board room', turn room', True, 2)))
                @ safeSend opn (Some p1) (StateMsg (Some (board room', turn room', True, 2))))
      \<and> (\<not> gameOver room' \<longrightarrow>
            snd (move opn ws raw i rs) =
                safeSend opn (Some p0) (StateMsg (Some (board room', turn room', False, 2)))
                @ safeSend opn (Some p1) (StateMsg (Some (board room', turn room', False, 2))))"
    apply (rule exI[of _ room'], rule exI[of _ p0], rule exI[of _ p1])
    apply (intro conjI m' pl' len lw wf dr over allI impI)
    apply (erule win[THEN conjunct1])
    apply (erule win[THEN conjunct2])
    apply (erule draw)
    apply (erule cont)
    done
  have d: "''D'' \<noteq> ''X'' \<and> ''D'' \<noteq> ''O''" by simp
  show ?thesis by (intro conjI lines ex d[THEN conjunct1] d[THEN conjunct2])
qed

theorem win_and_draw_witness:
  "roomsOk exMid \<and> accepted (\<lambda>_. True) 1 ''AAAAA'' (Num 2) exMid
   \<and> snd (move (\<lambda>_. True) 1 ''AAAAA'' (Num 2) exMid) =
       [(1, GameOver ''X''), (2, GameOver ''X''),
        (1, StateMsg (Some ([''X'', ''X'', ''X'', ''O'', ''O'', [], [], [], []], ''X'', True, 2))),
        (2, StateMsg (Some ([''X'', ''X'', ''X'', ''O'', ''O'', [], [], [], []], ''X'', True, 2)))]"
proof -
  have n: "normCode ''AAAAA'' = ''AAAAA''"
    by (simp add: normCode_def trim_def toUpperChar_def isSpace_def)
  have a: "accepted (\<lambda>_. True) 1 ''AAAAA'' (Num 2) exMid" by code_simp
  have w: "winnerOf [''X'', ''X'', ''X'', ''O'', ''O'', [], [], [], []] = Some ''X''"
    by code_simp
  have e: "map_of (fst (move (\<lambda>_. True) 1 ''AAAAA'' (Num 2) exMid)) ''AAAAA'' =
      Some \<lparr>players = [Some 1, Some 2], symbols = [1 \<mapsto> ''X'', 2 \<mapsto> ''O''],
            board = [''X'', ''X'', ''X'', ''O'', ''O'', [], [], [], []], turn = ''X'', gameOver = True\<rparr>"
    by (simp add: move_def n exMid_def playersCount_def place_def Let_def w)
  from win_and_draw[OF exMid_ok a] obtain room' p0 p1 where
    r: "map_of (fst (move (\<lambda>_. True) 1 ''AAAAA'' (Num 2) exMid)) (normCode ''AAAAA'') = Some room'"
    and p: "players room' = [Some p0, Some p1]"
    and g: "\<forall>w. winnerOf (board room') = Some w \<longrightarrow>
            (w = ''X'' \<or> w = ''O'')
            \<and> snd (move (\<lambda>_. True) 1 ''AAAAA'' (Num 2) exMid) =
                safeSend (\<lambda>_. True) (Some p0) (GameOver w) @ safeSend (\<lambda>_. True) (Some p1) (GameOver w)
                @ safeSend (\<lambda>_. True) (Some p0) (StateMsg (Some (board room', turn room', True, 2)))
                @ safeSend (\<lambda>_. True) (Some p1) (StateMsg (Some (board room', turn room', True, 2)))"
    by blast
  from r e have room': "room' = \<lparr>players = [Some 1, Some 2], symbols = [1 \<mapsto> ''X'', 2 \<mapsto> ''O''],
            board = [''X'', ''X'', ''X'', ''O'', ''O'', [], [], [], []], turn = ''X'', gameOver = True\<rparr>"
    by (simp add: n)
  with p have pp: "p0 = 1" "p1 = 2" by simp_all
  from room' have bt: "board room' = [''X'', ''X'', ''X'', ''O'', ''O'', [], [], [], []]" "turn room' = ''X''"
    by simp_all
  from g[rule_format, of "''X''"] w
  have "snd (move (\<lambda>_. True) 1 ''AAAAA'' (Num 2) exMid) =
       [(1, GameOver ''X''), (2, GameOver ''X''),
        (1, StateMsg (Some ([''X'', ''X'', ''X'', ''O'', ''O'', [], [], [], []], ''X'', True, 2))),
        (2, StateMsg (Some ([''X'', ''X'', ''X'', ''O'', ''O'', [], [], [], []], ''X'', True, 2)))]"
    by (simp add: bt pp safeSend_Some)
  with exMid_ok a show ?thesis by (intro conjI)
qed

section \<open>Disconnects\<close>






section \<open>The order of the checks of a move\<close>

lemma badIndex_range:
  "badIndex i \<longleftrightarrow> \<not> (i = NaN \<or> (\<exists>q. i = Num q \<and> 0 \<le> q \<and> q \<le> 8))"
  by (cases i) auto

lemma free_cell_lookup:
  assumes "length bd = 9"
  shows "(\<exists>n\<le>8. i = Num (of_nat n) \<and> bd ! n = []) \<longleftrightarrow>
         (\<exists>n. arrayIndex bd i = Some n \<and> bd ! n = [])"
proof
  assume "\<exists>n\<le>8. i = Num (of_nat n) \<and> bd ! n = []"
  then obtain n where n: "n \<le> 8" "i = Num (of_nat n)" "bd ! n = []" by blast
  from n(1,2) assms have "arrayIndex bd i = Some n" by simp
  with n(3) show "\<exists>n. arrayIndex bd i = Some n \<and> bd ! n = []" by blast
next
  assume "\<exists>n. arrayIndex bd i = Some n \<and> bd ! n = []"
  then obtain n where n: "arrayIndex bd i = Some n" "bd ! n = []" by blast
  from arrayIndexD[OF n(1)] assms have "n \<le> 8" "i = Num (of_nat n)" by simp_all
  with n(2) show "\<exists>n\<le>8. i = Num (of_nat n) \<and> bd ! n = []" by blast
qed

lemma move_bad_index:
  assumes "roomsOk rs" and r: "map_of rs (normCode raw) = Some room"
    and m: "Some ws \<in> set (players room)" and o: "\<not> gameOver room" and b: "badIndex i"
  shows "move opn ws raw i rs = (rs, [])"
proof -
  from roomsOk_lookup[OF assms(1) r] have s: "slotsOk room" by (simp add: roomOk_def)
  from m obtain you where y: "symbols room ws = Some you" "you \<noteq> []"
    using slotsOk_member[OF s] by blast
  with r o b show ?thesis by (simp add: move_def)
qed

lemma move_occupied:
  assumes "roomsOk rs" and r: "map_of rs (normCode raw) = Some room"
    and o: "\<not> gameOver room" "\<not> badIndex i" and w: "\<forall>p \<in> set (players room). p \<noteq> None"
    and t: "symbols room ws = Some (turn room)"
    and a: "arrayIndex (board room) i = Some n" and c: "board room ! n \<noteq> []"
  shows "move opn ws raw i rs = (rs, [])"
proof -
  from roomsOk_lookup[OF assms(1) r] have s: "slotsOk room" by (simp add: roomOk_def)
  from w have "\<not> playersCount room < 2" using slotsOk_full[OF s] by auto
  moreover from slotsOk_symbol[OF s t] have "turn room \<noteq> []" by auto
  ultimately show ?thesis using r o t a c by (simp add: move_def Let_def)
qed

text \<open>
  C1 (as amended). In a registry that satisfies the invariant (every reachable one does),
  the move handler makes its checks in this order and stops at the first that fails: the
  room exists (else nothing is sent); the requester occupies a slot of it (else the error
  "not in the room"); the game is not over (else nothing); the index is a number from 0
  to 8, whether an integer or not, or NaN (else nothing); both slots are occupied (else
  the error "waiting for the second player"); the requester's symbol is the current turn
  (else the error "not your turn"); the index is an integer and the cell there is empty
  (else nothing). A failed check leaves the registry unchanged. When all pass, the move
  is accepted and the requester's symbol, which is the turn, is written into the cell.
  So a move is accepted if and only if: the room exists, the requester occupies a slot,
  the game is not over, the index is an integer from 0 to 8, both slots are occupied,
  the requester's symbol is the current turn and the cell is empty.
\<close>

theorem move_checks_in_order:
  assumes "roomsOk rs"
  shows "(case map_of rs (normCode raw) of
            None \<Rightarrow> move opn ws raw i rs = (rs, [])
          | Some room \<Rightarrow>
              if Some ws \<notin> set (players room)
                then move opn ws raw i rs = (rs, safeSend opn (Some ws) (Error NotInRoom))
              else if gameOver room
                then move opn ws raw i rs = (rs, [])
              else if \<not> (i = NaN \<or> (\<exists>q. i = Num q \<and> 0 \<le> q \<and> q \<le> 8))
                then move opn ws raw i rs = (rs, [])
              else if \<exists>p \<in> set (players room). p = None
                then move opn ws raw i rs = (rs, safeSend opn (Some ws) (Error WaitingSecond))
              else if symbols room ws \<noteq> Some (turn room)
                then move opn ws raw i rs = (rs, safeSend opn (Some ws) (Error NotYourTurn))
              else if \<not> (\<exists>n\<le>8. i = Num (of_nat n) \<and> board room ! n = [])
                then move opn ws raw i rs = (rs, [])
              else accepted opn ws raw i rs
                   \<and> (\<exists>n\<le>8. i = Num (of_nat n) \<and> board room ! n = []
                         \<and> fst (move opn ws raw i rs) =
                             AList.update (normCode raw) (place room n (turn room)) rs
                         \<and> board (place room n (turn room)) = (board room)[n := turn room]
                         \<and> (board room)[n := turn room] ! n = turn room))
      \<and> (accepted opn ws raw i rs \<longleftrightarrow>
           (\<exists>room. map_of rs (normCode raw) = Some room
              \<and> Some ws \<in> set (players room)
              \<and> \<not> gameOver room
              \<and> (\<exists>n\<le>8. i = Num (of_nat n)
                   \<and> (\<forall>p \<in> set (players room). p \<noteq> None)
                   \<and> symbols room ws = Some (turn room)
                   \<and> board room ! n = [])))
      \<and> (\<not> accepted opn ws raw i rs \<longrightarrow> fst (move opn ws raw i rs) = rs)"
proof -
  let ?code = "normCode raw"
  let ?inRange = "i = NaN \<or> (\<exists>q. i = Num q \<and> 0 \<le> q \<and> q \<le> 8)"
  have chain: "case map_of rs ?code of
            None \<Rightarrow> move opn ws raw i rs = (rs, [])
          | Some room \<Rightarrow>
              if Some ws \<notin> set (players room)
                then move opn ws raw i rs = (rs, safeSend opn (Some ws) (Error NotInRoom))
              else if gameOver room
                then move opn ws raw i rs = (rs, [])
              else if \<not> ?inRange
                then move opn ws raw i rs = (rs, [])
              else if \<exists>p \<in> set (players room). p = None
                then move opn ws raw i rs = (rs, safeSend opn (Some ws) (Error WaitingSecond))
              else if symbols room ws \<noteq> Some (turn room)
                then move opn ws raw i rs = (rs, safeSend opn (Some ws) (Error NotYourTurn))
              else if \<not> (\<exists>n\<le>8. i = Num (of_nat n) \<and> board room ! n = [])
                then move opn ws raw i rs = (rs, [])
              else accepted opn ws raw i rs
                   \<and> (\<exists>n\<le>8. i = Num (of_nat n) \<and> board room ! n = []
                         \<and> fst (move opn ws raw i rs) =
                             AList.update ?code (place room n (turn room)) rs
                         \<and> board (place room n (turn room)) = (board room)[n := turn room]
                         \<and> (board room)[n := turn room] ! n = turn room)"
  proof (cases "map_of rs ?code")
    case None
    then show ?thesis by (simp add: move_no_room)
  next
    case (Some room)
    note r = Some
    from roomsOk_lookup[OF assms r] have s: "slotsOk room" and len: "length (board room) = 9"
      by (simp_all add: roomOk_def boardOk_def)
    show ?thesis
    proof (cases "Some ws \<in> set (players room)")
      case False
      have "move opn ws raw i rs = (rs, safeSend opn (Some ws) (Error NotInRoom))"
        using assms r False by (rule move_not_member)
      then show ?thesis by (simp add: r False)
    next
      case m: True
      show ?thesis
      proof (cases "gameOver room")
        case True
        have "move opn ws raw i rs = (rs, [])"
          using assms r m True by (rule move_over)
        then show ?thesis by (simp add: r m True)
      next
        case o: False
        show ?thesis
        proof (cases "?inRange")
          case False
          then have "badIndex i" by (simp add: badIndex_range)
          with assms r m o have "move opn ws raw i rs = (rs, [])" by (rule move_bad_index)
          then show ?thesis using False by (simp add: r m o)
        next
          case ir: True
          then have bi: "\<not> badIndex i" by (simp add: badIndex_range)
          show ?thesis
          proof (cases "\<exists>p \<in> set (players room). p = None")
            case True
            have "move opn ws raw i rs = (rs, safeSend opn (Some ws) (Error WaitingSecond))"
              using assms r m o bi True by (rule move_waiting)
            then show ?thesis using True ir by (simp add: r m o)
          next
            case False
            then have w: "\<forall>p \<in> set (players room). p \<noteq> None" by metis
            show ?thesis
            proof (cases "symbols room ws = Some (turn room)")
              case t: False
              have "move opn ws raw i rs = (rs, safeSend opn (Some ws) (Error NotYourTurn))"
                using assms r m o bi w t by (rule move_not_turn)
              then show ?thesis using False ir by (simp add: r m o t)
            next
              case t: True
              show ?thesis
              proof (cases "\<exists>n\<le>8. i = Num (of_nat n) \<and> board room ! n = []")
                case fc: False
                have "move opn ws raw i rs = (rs, [])"
                proof (cases "arrayIndex (board room) i")
                  case None
                  with assms r m o bi w t show ?thesis by (rule move_no_cell)
                next
                  case (Some n)
                  with fc have "board room ! n \<noteq> []"
                    using free_cell_lookup[OF len, of i] by blast
                  with assms r o bi w t Some show ?thesis by (rule move_occupied)
                qed
                then show ?thesis using False ir fc by (simp add: r m o t)
              next
                case fc: True
                then obtain n where n: "n \<le> 8" "i = Num (of_nat n)" "board room ! n = []"
                  by blast
                from n(1,2) len have ai: "arrayIndex (board room) i = Some n" by simp
                from slotsOk_symbol[OF s t] have tn: "turn room \<noteq> []" by auto
                from w have pc: "\<not> playersCount room < 2" using slotsOk_full[OF s] by auto
                have acc: "accepted opn ws raw i rs"
                  unfolding accepted_code using r t tn o bi pc ai n(3) by blast
                have f: "fst (move opn ws raw i rs) = AList.update ?code (place room n (turn room)) rs"
                  by (simp add: move_accept[OF r t tn o bi pc ai n(3)])
                from n(1) len have "(board room)[n := turn room] ! n = turn room" by simp
                with n f have "\<exists>n\<le>8. i = Num (of_nat n) \<and> board room ! n = []
                         \<and> fst (move opn ws raw i rs) =
                             AList.update ?code (place room n (turn room)) rs
                         \<and> board (place room n (turn room)) = (board room)[n := turn room]
                         \<and> (board room)[n := turn room] ! n = turn room"
                  using place_fields(3) by blast
                with acc show ?thesis using False ir fc by (simp add: r m o t)
              qed
            qed
          qed
        qed
      qed
    qed
  qed
  from accepted_conditions[OF assms, of opn ws raw i]
  have iff: "accepted opn ws raw i rs \<longleftrightarrow>
           (\<exists>room. map_of rs ?code = Some room
              \<and> Some ws \<in> set (players room)
              \<and> \<not> gameOver room
              \<and> (\<exists>n\<le>8. i = Num (of_nat n)
                   \<and> (\<forall>p \<in> set (players room). p \<noteq> None)
                   \<and> symbols room ws = Some (turn room)
                   \<and> board room ! n = []))"
    and rej: "\<not> accepted opn ws raw i rs \<longrightarrow> fst (move opn ws raw i rs) = rs"
    by (rule conjunct1, rule conjunct2[THEN conjunct2])
  show ?thesis by (intro conjI chain iff rej)
qed

theorem move_checks_in_order_witness:
  "roomsOk exOne \<and> roomsOk exMid
   \<and> move (\<lambda>_. True) 1 ''AAAAA'' (Num 9) exOne = (exOne, [])
   \<and> move (\<lambda>_. True) 2 ''AAAAA'' (Num 2) exMid = (exMid, [(2, Error NotYourTurn)])
   \<and> accepted (\<lambda>_. True) 1 ''AAAAA'' (Num 2) exMid
   \<and> \<not> accepted (\<lambda>_. True) 1 ''AAAAA'' (Num 0) exMid
   \<and> fst (move (\<lambda>_. True) 1 ''AAAAA'' (Num 0) exMid) = exMid"
proof -
  have n: "normCode ''AAAAA'' = ''AAAAA''"
    by (simp add: normCode_def trim_def toUpperChar_def isSpace_def)
  from move_checks_in_order[OF exOne_ok, where raw = "''AAAAA''" and opn = "\<lambda>_. True"
      and ws = 1 and i = "Num 9"]
  have a: "move (\<lambda>_. True) 1 ''AAAAA'' (Num 9) exOne = (exOne, [])"
    by (simp add: n exOne_def newRoom_def)
  from move_checks_in_order[OF exMid_ok, where raw = "''AAAAA''" and opn = "\<lambda>_. True"
      and ws = 2 and i = "Num 2"]
  have b: "move (\<lambda>_. True) 2 ''AAAAA'' (Num 2) exMid = (exMid, [(2, Error NotYourTurn)])"
    by (simp add: n exMid_def safeSend_Some)
  have c: "accepted (\<lambda>_. True) 1 ''AAAAA'' (Num 2) exMid" by code_simp
  have d: "\<not> accepted (\<lambda>_. True) 1 ''AAAAA'' (Num 0) exMid" by code_simp
  from move_checks_in_order[OF exMid_ok, where raw = "''AAAAA''" and opn = "\<lambda>_. True"
      and ws = 1 and i = "Num 0"] d
  have e: "fst (move (\<lambda>_. True) 1 ''AAAAA'' (Num 0) exMid) = exMid" by blast
  from exOne_ok exMid_ok a b c d e show ?thesis by (intro conjI)
qed

text \<open>
  C1 as stated, with the test "the index is an integer in [0,8]" made fourth: in the room
  of \<open>exMid\<close> the first three conditions hold for connection 2 and the index 2.5 is not
  an integer, yet the move is not dropped there: it is answered by the sixth check.
\<close>

theorem move_order_counterexample:
  "map_of exMid (normCode ''AAAAA'') = Some (snd (hd exMid))
   \<and> Some 2 \<in> set (players (snd (hd exMid)))
   \<and> \<not> gameOver (snd (hd exMid))
   \<and> (5/2 :: rat) \<noteq> of_int \<lfloor>5/2 :: rat\<rfloor>
   \<and> snd (move (\<lambda>_. True) 2 ''AAAAA'' (Num (5/2)) exMid) = [(2, Error NotYourTurn)]"
proof -
  have n: "normCode ''AAAAA'' = ''AAAAA''"
    by (simp add: normCode_def trim_def toUpperChar_def isSpace_def)
  have a: "map_of exMid (normCode ''AAAAA'') = Some (snd (hd exMid))" by (simp add: n exMid_def)
  have b: "Some 2 \<in> set (players (snd (hd exMid)))" and c: "\<not> gameOver (snd (hd exMid))"
    by (simp_all add: exMid_def)
  have d: "(5/2 :: rat) \<noteq> of_int \<lfloor>5/2 :: rat\<rfloor>" by code_simp
  have e: "snd (move (\<lambda>_. True) 2 ''AAAAA'' (Num (5/2)) exMid) = [(2, Error NotYourTurn)]"
    by code_simp
  from a b c d e show ?thesis by (intro conjI)
qed

end
